theory Spec2Isabelle
  imports Main
begin

section \<open>JavaScript strings\<close>

text \<open>
  A JavaScript string is a sequence of UTF-16 code units. The model takes a string as a
  list of characters and covers ASCII text: the character classes and the change of case
  below are the ones the source's regular expressions and string methods use, cut down to
  the code units below 128. A character above that range is no digit, no white space and
  has no lower case.
\<close>

definition isDigit :: "char \<Rightarrow> bool" where
  \<comment> \<open>the class \<open>\d\<close>\<close>
  "isDigit c \<longleftrightarrow> c \<in> set ''0123456789''"

definition digitValue :: "char \<Rightarrow> nat" where
  "digitValue c = of_char c - 48"

definition parseInt :: "string \<Rightarrow> nat" where
  \<comment> \<open>\<open>parseInt(num, 10)\<close> on a non-empty run of decimal digits. JavaScript rounds the
      value to a double; a value that is rounded is at least \<open>2^53\<close>, beyond every array
      length, so the comparison with \<open>documentCount\<close> is the one on the exact value.\<close>
  "parseInt ds = foldl (\<lambda>a c. 10 * a + digitValue c) 0 ds"

function match_digits :: "string \<Rightarrow> string list" where
  \<comment> \<open>the successive matches of \<open>/\d+/g\<close>: leftmost first, each one greedy\<close>
  "match_digits [] = []"
| "match_digits (c # cs) =
     (if isDigit c then (c # takeWhile isDigit cs) # match_digits (dropWhile isDigit cs)
      else match_digits cs)"
  by pat_completeness auto
termination
  by (relation "measure length") (auto simp: length_dropWhile_le less_Suc_eq_le)

definition String_match_digits :: "string \<Rightarrow> string list option" where
  \<comment> \<open>\<open>content.match(/\d+/g)\<close>: \<open>null\<close> when nothing matches\<close>
  "String_match_digits content =
     (case match_digits content of [] \<Rightarrow> None | m # ms \<Rightarrow> Some (m # ms))"

section \<open>CopilotService.parseRanking\<close>

text \<open>
  A JavaScript \<open>Set\<close> of numbers keeps its elements in insertion order and ignores the
  insertion of an element it already has; \<open>Array.from\<close> reads them back in that order.
\<close>

definition Set_add :: "nat list \<Rightarrow> nat \<Rightarrow> nat list" where
  "Set_add s x = (if x \<in> set s then s else s @ [x])"

definition new_Set :: "nat list \<Rightarrow> nat list" where
  "new_Set xs = foldl Set_add [] xs"

definition parseRanking :: "string \<Rightarrow> nat \<Rightarrow> nat list" where
  \<comment> \<open>Nothing in the body throws on a string, so the \<open>catch\<close> branch is never taken.\<close>
  "parseRanking content documentCount =
     (let numbers =
            (case String_match_digits content of
               None \<Rightarrow> []
             | Some ms \<Rightarrow> filter (\<lambda>num. 0 \<le> num \<and> num < documentCount) (map parseInt ms));
          uniqueNumbers = new_Set numbers;
          missingIndices = filter (\<lambda>i. i \<notin> set uniqueNumbers) [0..<documentCount]
      in uniqueNumbers @ missingIndices)"

subsection \<open>The parsing policy in the specification's words\<close>

fun split_on :: "(char \<Rightarrow> bool) \<Rightarrow> string \<Rightarrow> string list" where
  \<comment> \<open>the pieces of a string between separator characters; \<open>split\<close> on one character\<close>
  "split_on sep [] = [[]]"
| "split_on sep (c # cs) =
     (if sep c then [] # split_on sep cs
      else (case split_on sep cs of [] \<Rightarrow> [[c]] | f # fs \<Rightarrow> (c # f) # fs))"

definition digit_runs :: "string \<Rightarrow> string list" where
  \<comment> \<open>the maximal runs of digits: what is left between the characters that are no digit\<close>
  "digit_runs s = filter (\<lambda>f. f \<noteq> []) (split_on (\<lambda>c. \<not> isDigit c) s)"

fun decimal_value :: "string \<Rightarrow> nat" where
  "decimal_value [] = 0"
| "decimal_value (d # ds) = digitValue d * 10 ^ length ds + decimal_value ds"

function dedup_first :: "nat list \<Rightarrow> nat list" where
  \<comment> \<open>every element once, at the place of its first occurrence\<close>
  "dedup_first [] = []"
| "dedup_first (x # xs) = x # dedup_first (removeAll x xs)"
  by pat_completeness auto
termination
  by (relation "measure length") (auto simp: less_Suc_eq_le)

definition spec_ranking :: "string \<Rightarrow> nat \<Rightarrow> nat list" where
  "spec_ranking reply N =
     (let kept = dedup_first (filter (\<lambda>k. k < N) (map decimal_value (digit_runs reply)))
      in kept @ filter (\<lambda>i. i \<notin> set kept) [0..<N])"

section \<open>CopilotService.rankDocumentsByRelevance\<close>

datatype js_error = Error string | SyntaxError

text \<open>
  The service object has two fields: \<open>client\<close> (here: whether it is not \<open>null\<close>) and
  \<open>isInitialized\<close>. The Copilot SDK is outside the repository; one call of the service
  sees it through the outcome of each of its four operations, which the model takes as a
  parameter: \<open>None\<close> is normal completion, \<open>Some e\<close> the exception thrown (a failure to
  start, a transport failure, a timeout). \<open>sendAndWait\<close> answers a prompt either with an
  exception or with the value of \<open>response?.data?.content\<close>, \<open>None\<close> when any part of that
  chain is undefined.
\<close>

record CopilotService =
  client :: bool
  isInitialized :: bool

record CopilotSdk =
  newCopilotClient :: "js_error option"
  start :: "js_error option"
  createSession :: "js_error option"
  sendAndWait :: "string \<Rightarrow> js_error + string option"

definition initialize :: "CopilotSdk \<Rightarrow> CopilotService \<Rightarrow> (js_error + unit) \<times> CopilotService" where
  "initialize sdk svc =
     (if isInitialized svc then (Inr (), svc)
      else (case newCopilotClient sdk of
              Some e \<Rightarrow>
                (Inl (Error ''Failed to initialize Copilot client. Ensure GitHub Copilot is configured.''),
                 svc)
            | None \<Rightarrow>
                (case start sdk of
                   Some e \<Rightarrow>
                     (Inl (Error ''Failed to initialize Copilot client. Ensure GitHub Copilot is configured.''),
                      svc\<lparr>client := True\<rparr>)
                 | None \<Rightarrow> (Inr (), svc\<lparr>client := True, isInitialized := True\<rparr>))))"

fun join :: "string \<Rightarrow> string list \<Rightarrow> string" where
  "join sep [] = []"
| "join sep [x] = x"
| "join sep (x # y # ys) = x @ sep @ join sep (y # ys)"

fun String_of_nat :: "nat \<Rightarrow> string" where
  \<comment> \<open>an array index written into a template string\<close>
  "String_of_nat n =
     (if n < 10 then [''0123456789'' ! n]
      else String_of_nat (n div 10) @ [''0123456789'' ! (n mod 10)])"

definition documentsList :: "(string \<times> string) list \<Rightarrow> string" where
  \<comment> \<open>a document summary is the pair of its title and its snippet\<close>
  "documentsList documents =
     join [CHR 0x0A, CHR 0x0A]
       (map (\<lambda>(idx, doc).
               ''['' @ String_of_nat idx @ ''] Title: '' @ fst doc @ [CHR 0x0A]
                 @ ''Snippet: '' @ snd doc)
            (zip [0..<length documents] documents))"

definition ranking_prompt :: "string \<Rightarrow> (string \<times> string) list \<Rightarrow> string" where
  "ranking_prompt query documents =
     ''Given the following user question and a list of documents, identify which documents are most relevant to answering the question. Return ONLY the document numbers in order of relevance (most relevant first), as a comma-separated list of numbers.''
     @ [CHR 0x0A, CHR 0x0A]
     @ ''User Question: '' @ [CHR 0x22] @ query @ [CHR 0x22] @ [CHR 0x0A, CHR 0x0A]
     @ ''Documents:'' @ [CHR 0x0A]
     @ documentsList documents @ [CHR 0x0A, CHR 0x0A]
     @ ''Return format: Just the numbers separated by commas (e.g., '' @ [CHR 0x22]
     @ ''2,0,4,1'' @ [CHR 0x22] @ '')'' @ [CHR 0x0A]
     @ ''Your response:''"

definition identity_ranking :: "nat \<Rightarrow> nat list" where
  \<comment> \<open>\<open>Array.from({ length: n }, (_, i) => i)\<close>\<close>
  "identity_ranking n = [0..<n]"

definition rank_body ::
  "CopilotSdk \<Rightarrow> CopilotService \<Rightarrow> string \<Rightarrow> (string \<times> string) list
     \<Rightarrow> (js_error + nat list) \<times> CopilotService" where
  \<comment> \<open>the body of the \<open>try\<close> block of \<open>rankDocumentsByRelevance\<close>\<close>
  "rank_body sdk svc query documents =
     (let (started, svc1) =
            (if \<not> client svc \<or> \<not> isInitialized svc then initialize sdk svc else (Inr (), svc))
      in case started of
           Inl e \<Rightarrow> (Inl e, svc1)
         | Inr _ \<Rightarrow>
             if \<not> client svc1 then (Inl (Error ''Copilot client is not initialized''), svc1)
             else (case createSession sdk of
                     Some e \<Rightarrow> (Inl e, svc1)
                   | None \<Rightarrow>
                       (case sendAndWait sdk (ranking_prompt query documents) of
                          Inl e \<Rightarrow> (Inl e, svc1)
                        | Inr response \<Rightarrow>
                            (case response of
                               Some content \<Rightarrow>
                                 if content \<noteq> []
                                 then (Inr (parseRanking content (length documents)), svc1)
                                 else (Inr (identity_ranking (length documents)), svc1)
                             | None \<Rightarrow> (Inr (identity_ranking (length documents)), svc1)))))"

definition rankDocumentsByRelevance ::
  "CopilotSdk \<Rightarrow> CopilotService \<Rightarrow> string \<Rightarrow> (string \<times> string) list
     \<Rightarrow> (js_error + nat list) \<times> CopilotService" where
  "rankDocumentsByRelevance sdk svc query documents =
     (case rank_body sdk svc query documents of
        (Inl e, svc1) \<Rightarrow> (Inr (identity_ranking (length documents)), svc1)
      | (Inr ranking, svc1) \<Rightarrow> (Inr ranking, svc1))"

definition no_content :: "js_error + string option \<Rightarrow> bool" where
  \<comment> \<open>a reply whose \<open>response?.data?.content\<close> is falsy\<close>
  "no_content reply \<longleftrightarrow> reply = Inr None \<or> reply = Inr (Some [])"

section \<open>More JavaScript strings\<close>

definition isSpace :: "char \<Rightarrow> bool" where
  \<comment> \<open>the class \<open>\s\<close>, and what \<open>trim\<close> removes\<close>
  "isSpace c \<longleftrightarrow> c \<in> set [CHR 0x09, CHR 0x0A, CHR 0x0B, CHR 0x0C, CHR 0x0D, CHR 0x20]"

definition toLowerCase_char :: "char \<Rightarrow> char" where
  "toLowerCase_char c =
     (case map_of (zip ''ABCDEFGHIJKLMNOPQRSTUVWXYZ'' ''abcdefghijklmnopqrstuvwxyz'') c of
        Some l \<Rightarrow> l
      | None \<Rightarrow> c)"

definition toLowerCase :: "string \<Rightarrow> string" where
  "toLowerCase s = map toLowerCase_char s"

definition startsWith :: "string \<Rightarrow> string \<Rightarrow> bool" where
  "startsWith s t \<longleftrightarrow> take (length t) s = t"

fun String_includes :: "string \<Rightarrow> string \<Rightarrow> bool" where
  "String_includes [] t \<longleftrightarrow> t = []"
| "String_includes (c # cs) t \<longleftrightarrow> startsWith (c # cs) t \<or> String_includes cs t"

definition trim :: "string \<Rightarrow> string" where
  "trim s = rev (dropWhile isSpace (rev (dropWhile isSpace s)))"

definition slice :: "nat \<Rightarrow> nat \<Rightarrow> 'a list \<Rightarrow> 'a list" where
  \<comment> \<open>\<open>xs.slice(from, to)\<close> for indices that are not negative\<close>
  "slice from to xs = take (to - from) (drop from xs)"

function split_ws :: "string \<Rightarrow> string list" where
  \<comment> \<open>\<open>s.split(/\s+/)\<close>\<close>
  "split_ws [] = [[]]"
| "split_ws (c # cs) =
     (if isSpace c then [] # split_ws (dropWhile isSpace cs)
      else (case split_ws cs of [] \<Rightarrow> [[c]] | f # fs \<Rightarrow> (c # f) # fs))"
  by pat_completeness auto
termination
  by (relation "measure length") (auto simp: length_dropWhile_le less_Suc_eq_le)

definition split_lines :: "string \<Rightarrow> string list" where
  \<comment> \<open>\<open>content.split('\n')\<close>\<close>
  "split_lines s = split_on (\<lambda>c. c = CHR 0x0A) s"

section \<open>Regular expressions built from a query term\<close>

text \<open>
  The scoring code builds \<open>new RegExp(term, 'g')\<close> from each query term and counts its
  matches in the lower-cased content. The model covers three kinds of pattern text: one
  that starts with a quantifier, which the constructor rejects with a \<open>SyntaxError\<close>
  (nothing to repeat); one made of characters that stand for themselves and of dots, which
  is a fixed-length pattern; and every other text, whose meaning is left to a parameter
  \<open>engine\<close> that stands for the JavaScript engine: it either throws or yields the number
  of matches in a given string.
\<close>

type_synonym regex_engine = "string \<Rightarrow> js_error + (string \<Rightarrow> nat)"

datatype regexp_atom = Literal char | AnyChar

definition isSyntaxCharacter :: "char \<Rightarrow> bool" where
  "isSyntaxCharacter c \<longleftrightarrow> c \<in> set (''^$.*+?()[]{}|'' @ [CHR 0x5C])"

definition isLineTerminator :: "char \<Rightarrow> bool" where
  "isLineTerminator c \<longleftrightarrow> c = CHR 0x0A \<or> c = CHR 0x0D"

definition atom_of :: "char \<Rightarrow> regexp_atom" where
  "atom_of c = (if c = CHR ''.'' then AnyChar else Literal c)"

fun atom_matches :: "regexp_atom \<Rightarrow> char \<Rightarrow> bool" where
  "atom_matches (Literal l) c \<longleftrightarrow> c = l"
| "atom_matches AnyChar c \<longleftrightarrow> \<not> isLineTerminator c"

definition matches_at :: "regexp_atom list \<Rightarrow> string \<Rightarrow> bool" where
  \<comment> \<open>the pattern matches at the start of the string\<close>
  "matches_at p s \<longleftrightarrow> length p \<le> length s \<and> list_all2 atom_matches p (take (length p) s)"

function count_matches :: "regexp_atom list \<Rightarrow> string \<Rightarrow> nat" where
  \<comment> \<open>the number of matches of a global pattern: after a match the scan goes on behind
      it, and one character further after an empty match\<close>
  "count_matches p [] = (if p = [] then 1 else 0)"
| "count_matches p (c # cs) =
     (if matches_at p (c # cs) then 1 + count_matches p (drop (length p - 1) cs)
      else count_matches p cs)"
  by pat_completeness auto
termination
  by (relation "measure (\<lambda>(p, s). length s)") auto

definition plain_term :: "string \<Rightarrow> bool" where
  \<comment> \<open>no character of the term has a meaning of its own in a pattern\<close>
  "plain_term t \<longleftrightarrow> list_all (\<lambda>c. \<not> isSyntaxCharacter c) t"

definition RegExp :: "regex_engine \<Rightarrow> string \<Rightarrow> js_error + (string \<Rightarrow> nat)" where
  "RegExp engine t =
     (if t \<noteq> [] \<and> hd t \<in> set ''*+?'' then Inl SyntaxError
      else if list_all (\<lambda>c. \<not> isSyntaxCharacter c \<or> c = CHR ''.'') t
      then Inr (count_matches (map atom_of t))
      else engine t)"

definition match_count :: "regex_engine \<Rightarrow> string \<Rightarrow> string \<Rightarrow> js_error + nat" where
  \<comment> \<open>\<open>(s.match(new RegExp(term, 'g')) ?? []).length\<close>\<close>
  "match_count engine s t =
     (case RegExp engine t of Inl e \<Rightarrow> Inl e | Inr count \<Rightarrow> Inr (count s))"

section \<open>KnowledgeService: scoring and snippets\<close>

record KnowledgeDocument =
  path :: string
  title :: string
  content :: string
  snippet :: "string option"

record Candidate = KnowledgeDocument +
  score :: nat

definition ellipsize :: "string \<Rightarrow> string" where
  "ellipsize s = (if length s > 300 then take 300 s @ ''...'' else s)"

definition window_at :: "string list \<Rightarrow> nat \<Rightarrow> string" where
  \<comment> \<open>\<open>lines.slice(Math.max(0, i - 1), Math.min(lines.length, i + 3)).join('\n').trim()\<close>\<close>
  "window_at lines i =
     trim (join [CHR 0x0A] (slice (max 0 (i - 1)) (min (length lines) (i + 3)) lines))"

fun scan_lines :: "string list \<Rightarrow> string \<Rightarrow> nat list \<Rightarrow> string option" where
  \<comment> \<open>the inner loop of \<open>extractSnippet\<close> over the line indices still to visit\<close>
  "scan_lines lines t [] = None"
| "scan_lines lines t (i # is) =
     (if String_includes (toLowerCase (lines ! i)) t \<and> length (window_at lines i) > 20
      then Some (ellipsize (window_at lines i))
      else scan_lines lines t is)"

fun scan_terms :: "string list \<Rightarrow> string list \<Rightarrow> string option" where
  \<comment> \<open>the outer loop of \<open>extractSnippet\<close>\<close>
  "scan_terms lines [] = None"
| "scan_terms lines (t # ts) =
     (if length t < 3 then scan_terms lines ts
      else (case scan_lines lines t [0..<length lines] of
              Some s \<Rightarrow> Some s
            | None \<Rightarrow> scan_terms lines ts))"

definition firstContent :: "string list \<Rightarrow> string" where
  "firstContent lines =
     join [CHR 0x0A]
       (slice 0 3
          (filter (\<lambda>l. trim l \<noteq> [] \<and> \<not> startsWith l ''#'' \<and> \<not> startsWith l ''---'') lines))"

definition extractSnippet :: "string \<Rightarrow> string list \<Rightarrow> string" where
  "extractSnippet text queryTerms =
     (let lines = split_lines text
      in case scan_terms lines queryTerms of
           Some s \<Rightarrow> s
         | None \<Rightarrow> ellipsize (firstContent lines))"

fun scoreDocument_loop ::
  "regex_engine \<Rightarrow> string \<Rightarrow> string \<Rightarrow> string list \<Rightarrow> nat \<Rightarrow> js_error + nat" where
  \<comment> \<open>the loop of \<open>scoreDocument\<close>, with the score so far\<close>
  "scoreDocument_loop engine titleLower contentLower [] sc = Inr sc"
| "scoreDocument_loop engine titleLower contentLower (t # ts) sc =
     (if length t < 3 then scoreDocument_loop engine titleLower contentLower ts sc
      else (case match_count engine contentLower t of
              Inl e \<Rightarrow> Inl e
            | Inr matches \<Rightarrow>
                scoreDocument_loop engine titleLower contentLower ts
                  ((if String_includes titleLower t then sc + 10 else sc) + min matches 5)))"

definition scoreDocument ::
  "regex_engine \<Rightarrow> 'a KnowledgeDocument_scheme \<Rightarrow> string list \<Rightarrow> js_error + nat" where
  "scoreDocument engine doc queryTerms =
     scoreDocument_loop engine (toLowerCase (title doc)) (toLowerCase (content doc))
       queryTerms 0"

fun inline_score_loop ::
  "regex_engine \<Rightarrow> string \<Rightarrow> string \<Rightarrow> string list \<Rightarrow> nat \<Rightarrow> js_error + nat" where
  \<comment> \<open>the scoring loop written out in \<open>search\<close> and in \<open>searchWithCopilot\<close>: the matches
      are counted only when the content String_includes the term\<close>
  "inline_score_loop engine titleLower contentLower [] sc = Inr sc"
| "inline_score_loop engine titleLower contentLower (t # ts) sc =
     (if length t < 3 then inline_score_loop engine titleLower contentLower ts sc
      else if String_includes contentLower t
      then (case match_count engine contentLower t of
              Inl e \<Rightarrow> Inl e
            | Inr matches \<Rightarrow>
                inline_score_loop engine titleLower contentLower ts
                  ((if String_includes titleLower t then sc + 10 else sc) + min matches 5))
      else inline_score_loop engine titleLower contentLower ts
             (if String_includes titleLower t then sc + 10 else sc))"

definition inline_score ::
  "regex_engine \<Rightarrow> KnowledgeDocument \<Rightarrow> string list \<Rightarrow> js_error + nat" where
  "inline_score engine doc queryTerms =
     inline_score_loop engine (toLowerCase (title doc)) (toLowerCase (content doc))
       queryTerms 0"

section \<open>KnowledgeService: search and searchWithCopilot on the loaded documents\<close>

text \<open>
  Both methods first load the documents (\<open>getAllDocuments\<close>, modelled further below) and
  then work on that array. The definitions of this section are the methods from that point
  on. A \<open>try\<close> block is a value of a sum type, \<open>Inl\<close> for the exception that leaves it.
\<close>

definition sort_desc :: "('a \<Rightarrow> nat) \<Rightarrow> 'a list \<Rightarrow> 'a list" where
  \<comment> \<open>\<open>xs.sort((a, b) => key(b) - key(a))\<close>: \<open>Array.prototype.sort\<close> is stable\<close>
  "sort_desc key xs = sort_key (\<lambda>x. - int (key x)) xs"

fun search_loop ::
  "regex_engine \<Rightarrow> string list \<Rightarrow> KnowledgeDocument list
     \<Rightarrow> js_error + KnowledgeDocument list" where
  \<comment> \<open>the loop of \<open>search\<close> over the documents; its value is the array \<open>results\<close>\<close>
  "search_loop engine queryTerms [] = Inr []"
| "search_loop engine queryTerms (doc # docs) =
     (case inline_score engine doc queryTerms of
        Inl e \<Rightarrow> Inl e
      | Inr sc \<Rightarrow>
          (case search_loop engine queryTerms docs of
             Inl e \<Rightarrow> Inl e
           | Inr results \<Rightarrow>
               Inr (if sc > 0
                    then doc\<lparr>snippet := Some (extractSnippet (content doc) queryTerms)\<rparr> # results
                    else results)))"

fun score_all ::
  "regex_engine \<Rightarrow> string list \<Rightarrow> KnowledgeDocument list \<Rightarrow> js_error + nat list" where
  "score_all engine queryTerms [] = Inr []"
| "score_all engine queryTerms (doc # docs) =
     (case scoreDocument engine doc queryTerms of
        Inl e \<Rightarrow> Inl e
      | Inr k \<Rightarrow>
          (case score_all engine queryTerms docs of
             Inl e \<Rightarrow> Inl e
           | Inr ks \<Rightarrow> Inr (k # ks)))"

definition sort_results ::
  "regex_engine \<Rightarrow> string list \<Rightarrow> KnowledgeDocument list
     \<Rightarrow> js_error + KnowledgeDocument list" where
  \<comment> \<open>\<open>results.sort((a, b) => scoreDocument(b) - scoreDocument(a))\<close>. The comparator runs
      only when there are two elements to compare. Whether \<open>scoreDocument\<close> throws depends
      on the query terms alone, so the first comparison throws exactly when scoring any
      element does.\<close>
  "sort_results engine queryTerms results =
     (if length results < 2 then Inr results
      else (case score_all engine queryTerms results of
              Inl e \<Rightarrow> Inl e
            | Inr keys \<Rightarrow> Inr (map snd (sort_desc fst (zip keys results)))))"

definition search_on ::
  "regex_engine \<Rightarrow> KnowledgeDocument list \<Rightarrow> string \<Rightarrow> js_error + KnowledgeDocument list" where
  "search_on engine documents query =
     (let queryTerms = split_ws (toLowerCase query)
      in case search_loop engine queryTerms documents of
           Inl e \<Rightarrow> Inr []
         | Inr results \<Rightarrow>
             (case sort_results engine queryTerms results of
                Inl e \<Rightarrow> Inr []
              | Inr ordered \<Rightarrow> Inr (slice 0 3 ordered)))"

definition as_candidate :: "KnowledgeDocument \<Rightarrow> string list \<Rightarrow> nat \<Rightarrow> Candidate" where
  \<comment> \<open>\<open>{ ...doc, snippet: this.extractSnippet(doc.content, queryTerms), score }\<close>\<close>
  "as_candidate doc queryTerms sc =
     \<lparr>path = path doc, title = title doc, content = content doc,
      snippet = Some (extractSnippet (content doc) queryTerms), score = sc\<rparr>"

definition strip_score :: "Candidate \<Rightarrow> KnowledgeDocument" where
  \<comment> \<open>\<open>({ score: _score, ...doc }) => doc\<close>\<close>
  "strip_score c = \<lparr>path = path c, title = title c, content = content c, snippet = snippet c\<rparr>"

fun candidate_loop ::
  "regex_engine \<Rightarrow> string list \<Rightarrow> KnowledgeDocument list \<Rightarrow> js_error + Candidate list" where
  "candidate_loop engine queryTerms [] = Inr []"
| "candidate_loop engine queryTerms (doc # docs) =
     (case inline_score engine doc queryTerms of
        Inl e \<Rightarrow> Inl e
      | Inr sc \<Rightarrow>
          (case candidate_loop engine queryTerms docs of
             Inl e \<Rightarrow> Inl e
           | Inr candidates \<Rightarrow>
               Inr (if sc > 0 then as_candidate doc queryTerms sc # candidates
                    else candidates)))"

definition topCandidates ::
  "regex_engine \<Rightarrow> KnowledgeDocument list \<Rightarrow> string \<Rightarrow> nat \<Rightarrow> js_error + Candidate list" where
  \<comment> \<open>steps 1 and 2 of \<open>searchWithCopilot\<close>\<close>
  "topCandidates engine documents query maxCandidates =
     (let queryTerms = split_ws (toLowerCase query)
      in case candidate_loop engine queryTerms documents of
           Inl e \<Rightarrow> Inl e
         | Inr found \<Rightarrow>
             (let candidates =
                    (if length found = 0
                     then map (\<lambda>doc. as_candidate doc queryTerms 0)
                            (slice 0 maxCandidates documents)
                     else found)
              in Inr (slice 0 maxCandidates (sort_desc score candidates))))"

text \<open>
  The service that ranks is an object handed to the constructor. \<open>searchWithCopilot\<close> sees
  it as a function from the query and the document summaries to a ranking or an exception;
  \<open>None\<close> is a \<open>KnowledgeService\<close> built without one. The second component of the result
  lists the calls made to it.
\<close>

type_synonym ranker = "string \<Rightarrow> (string \<times> string) list \<Rightarrow> js_error + nat list"

type_synonym ranker_calls = "(string \<times> (string \<times> string) list) list"

definition reorder :: "Candidate list \<Rightarrow> nat list \<Rightarrow> Candidate list" where
  \<comment> \<open>\<open>ranking.map(idx => topCandidates[idx]).filter(doc => doc !== undefined)\<close>; a number
      that is no index of the array reads \<open>undefined\<close>\<close>
  "reorder tops ranking =
     List.map_filter (\<lambda>idx. if idx < length tops then Some (tops ! idx) else None) ranking"

definition enhanced_body ::
  "regex_engine \<Rightarrow> ranker \<Rightarrow> KnowledgeDocument list \<Rightarrow> string \<Rightarrow> nat \<Rightarrow> nat
     \<Rightarrow> (js_error + KnowledgeDocument list) \<times> ranker_calls" where
  \<comment> \<open>the \<open>try\<close> block of \<open>searchWithCopilot\<close>\<close>
  "enhanced_body engine rank documents query maxCandidates maxResults =
     (case topCandidates engine documents query maxCandidates of
        Inl e \<Rightarrow> (Inl e, [])
      | Inr tops \<Rightarrow>
          if length tops \<le> maxResults then (Inr (map strip_score tops), [])
          else (let documentsToRank =
                      map (\<lambda>doc. (title doc, (case snippet doc of None \<Rightarrow> [] | Some s \<Rightarrow> s))) tops
                in case rank query documentsToRank of
                     Inl e \<Rightarrow> (Inl e, [(query, documentsToRank)])
                   | Inr ranking \<Rightarrow>
                       (Inr (map strip_score (slice 0 maxResults (reorder tops ranking))),
                        [(query, documentsToRank)])))"

definition searchWithCopilot_on ::
  "regex_engine \<Rightarrow> ranker option \<Rightarrow> KnowledgeDocument list \<Rightarrow> string \<Rightarrow> nat \<Rightarrow> nat
     \<Rightarrow> (js_error + KnowledgeDocument list) \<times> ranker_calls" where
  \<comment> \<open>\<open>maxCandidates\<close> and \<open>maxResults\<close> are counts, taken as natural numbers\<close>
  "searchWithCopilot_on engine copilotService documents query maxCandidates maxResults =
     (case copilotService of
        None \<Rightarrow> (search_on engine documents query, [])
      | Some rank \<Rightarrow>
          (case enhanced_body engine rank documents query maxCandidates maxResults of
             (Inl e, calls) \<Rightarrow> (search_on engine documents query, calls)
           | (Inr results, calls) \<Rightarrow> (Inr results, calls)))"

subsection \<open>The lexical score in the specification's words\<close>

fun occurrences :: "string \<Rightarrow> string \<Rightarrow> nat" where
  \<comment> \<open>the number of places of \<open>s\<close> at which \<open>t\<close> occurs\<close>
  "occurrences t [] = 0"
| "occurrences t (c # cs) = (if startsWith (c # cs) t then 1 else 0) + occurrences t cs"

function occurrences_apart :: "string \<Rightarrow> string \<Rightarrow> nat" where
  \<comment> \<open>the occurrences counted from left to right, each one starting behind the one before\<close>
  "occurrences_apart t [] = 0"
| "occurrences_apart t (c # cs) =
     (if startsWith (c # cs) t then 1 + occurrences_apart t (drop (length t - 1) cs)
      else occurrences_apart t cs)"
  by pat_completeness auto
termination
  by (relation "measure (\<lambda>(t, s). length s)") auto

definition term_sum ::
  "(string \<Rightarrow> string \<Rightarrow> nat) \<Rightarrow> string \<Rightarrow> string \<Rightarrow> string list \<Rightarrow> nat" where
  \<comment> \<open>the sum over the terms of length 3 and more: 10 for a term the title contains, plus
      the occurrences of the term in the content, at most 5\<close>
  "term_sum count titleLower contentLower ts =
     sum_list
       (map (\<lambda>t. (if String_includes titleLower t then 10 else 0)
                 + min (count t contentLower) 5)
          (filter (\<lambda>t. 3 \<le> length t) ts))"

definition lexical_score ::
  "(string \<Rightarrow> string \<Rightarrow> nat) \<Rightarrow> 'a KnowledgeDocument_scheme \<Rightarrow> string \<Rightarrow> nat" where
  \<comment> \<open>\<open>count\<close> is the way occurrences in the content are counted\<close>
  "lexical_score count doc query =
     term_sum count (toLowerCase (title doc)) (toLowerCase (content doc))
       (split_ws (toLowerCase query))"

subsection \<open>The snippet in the specification's words\<close>

definition first_matching_term :: "string list \<Rightarrow> string list \<Rightarrow> string option" where
  \<comment> \<open>the first term, in the order given, of length 3 and more that occurs in the
      lower-cased text of some line\<close>
  "first_matching_term lines ts =
     List.find (\<lambda>t. 3 \<le> length t \<and> list_ex (\<lambda>l. String_includes (toLowerCase l) t) lines) ts"

definition first_matching_line :: "string list \<Rightarrow> string \<Rightarrow> nat option" where
  "first_matching_line lines t =
     List.find (\<lambda>i. String_includes (toLowerCase (lines ! i)) t) [0..<length lines]"

definition lines_around :: "nat \<Rightarrow> nat \<Rightarrow> string list \<Rightarrow> nat \<Rightarrow> string" where
  \<comment> \<open>from \<open>up\<close> lines before line \<open>i\<close> through \<open>down\<close> lines after it, clipped to the
      lines there are, joined and trimmed\<close>
  "lines_around up down lines i =
     trim (join [CHR 0x0A]
       (map (\<lambda>j. lines ! j) [i - up..<min (length lines) (i + down + 1)]))"

definition moss_care :: string where
  \<comment> \<open>a document of six lines, for the examples\<close>
  "moss_care =
     ''# Moss care'' @ [CHR 0x0A] @ ''Moss needs water weekly.'' @ [CHR 0x0A]
     @ ''Keep it shaded.'' @ [CHR 0x0A] @ ''Avoid direct sun.'' @ [CHR 0x0A]
     @ ''Mist in summer.'' @ [CHR 0x0A] @ ''Do not fertilize.''"

definition library :: "KnowledgeDocument list" where
  \<comment> \<open>three documents, for the examples\<close>
  "library =
     [\<lparr>path = ''moss.md'', title = ''Moss'', content = ''moss moss'', snippet = None\<rparr>,
      \<lparr>path = ''ferns.md'', title = ''Ferns'', content = ''like moss'', snippet = None\<rparr>,
      \<lparr>path = ''light.md'', title = ''Light'', content = ''moss and moss and moss'',
        snippet = None\<rparr>]"

section \<open>KnowledgeService.loadDocument\<close>

text \<open>
  \<open>path.normalize\<close> and \<open>path.join\<close> are those of Node.js for POSIX paths. Node.js
  scans the characters of the path; the result is the one below on the segments between
  the slashes: an empty segment and a single dot are dropped, two dots remove the segment
  before them unless there is none or it is two dots itself, and then stay only in a
  relative path. \<open>fs.readFile\<close> is a parameter: the text of the file at an absolute
  path, \<open>None\<close> when reading it throws. The function that derives a title from a text and
  a path is a parameter too. The second component of the result lists the paths read.
\<close>

fun normalizeString ::  "bool \<Rightarrow> string list \<Rightarrow> string list \<Rightarrow> string list" where
  "normalizeString allowAboveRoot res [] = res"
| "normalizeString allowAboveRoot res (seg # segs) =
     (if seg = [] \<or> seg = ''.'' then normalizeString allowAboveRoot res segs
      else if seg = ''..'' then
        (if res \<noteq> [] \<and> last res \<noteq> ''..''
         then normalizeString allowAboveRoot (butlast res) segs
         else if allowAboveRoot then normalizeString allowAboveRoot (res @ [''..'']) segs
         else normalizeString allowAboveRoot res segs)
      else normalizeString allowAboveRoot (res @ [seg]) segs)"

definition path_normalize :: "string \<Rightarrow> string" where
  "path_normalize p =
     (if p = [] then ''.''
      else (let isAbsolute = (hd p = CHR ''/'');
                trailingSeparator = (last p = CHR ''/'');
                norm = join ''/'' (normalizeString (\<not> isAbsolute) []
                                    (split_on (\<lambda>c. c = CHR ''/'') p))
            in if norm = []
               then (if isAbsolute then ''/'' else if trailingSeparator then ''./'' else ''.'')
               else (if isAbsolute then ''/'' else []) @ norm
                    @ (if trailingSeparator then ''/'' else [])))"

definition path_join :: "string \<Rightarrow> string \<Rightarrow> string" where
  "path_join a b =
     (let joined = join ''/'' (filter (\<lambda>s. s \<noteq> []) [a, b])
      in if joined = [] then ''.'' else path_normalize joined)"

definition loadDocument ::
  "(string \<Rightarrow> string \<Rightarrow> string) \<Rightarrow> (string \<Rightarrow> string option) \<Rightarrow> string \<Rightarrow> string
     \<Rightarrow> (js_error + KnowledgeDocument option) \<times> string list" where
  "loadDocument extractTitle readFile dataDirectory relativePath =
     (let normalizedPath = path_normalize relativePath
      in if String_includes normalizedPath ''..'' then (Inl (Error ''Invalid path''), [])
         else (let fullPath = path_join dataDirectory normalizedPath
               in if \<not> startsWith fullPath dataDirectory
                  then (Inl (Error ''Invalid path''), [])
                  else (case readFile fullPath of
                          None \<Rightarrow> (Inr None, [fullPath])
                        | Some text \<Rightarrow>
                            (Inr (Some \<lparr>path = relativePath,
                                        title = extractTitle text relativePath,
                                        content = text, snippet = None\<rparr>),
                             [fullPath]))))"

section \<open>KnowledgeService: the document cache\<close>

text \<open>
  The cache maps a relative path to a document object; the array that \<open>getAllDocuments\<close>
  returns holds the same objects. An object is an address in a store: \<open>objects\<close> gives
  the fields of the object at an address and \<open>lim\<close> is the first address not yet in use.
  The directory tree under the data directory is a parameter: a file with its name and its
  text (\<open>None\<close> when it cannot be read), a directory with its name and its entries, a
  directory that cannot be listed, or an entry that is neither. The relative path of a file
  is the sequence of the names that lead to it, joined by slashes.
\<close>

definition path_extname :: "string \<Rightarrow> string" where
  "path_extname name =
     (let after = takeWhile (\<lambda>c. c \<noteq> CHR ''.'') (rev name);
          upto = dropWhile (\<lambda>c. c \<noteq> CHR ''.'') (rev name)
      in if upto = [] \<or> tl upto = [] \<or> name = ''..'' then []
         else CHR ''.'' # rev after)"

datatype fs_entry =
  File string "string option"
| Directory string "fs_entry list"
| Unreadable string
| Other string

record KnowledgeService =
  documentCache :: "string \<Rightarrow> nat option"
  objects :: "nat \<Rightarrow> KnowledgeDocument"
  lim :: nat

definition new_object :: "KnowledgeDocument \<Rightarrow> KnowledgeService \<Rightarrow> nat \<times> KnowledgeService" where
  "new_object doc st = (lim st, st\<lparr>objects := (objects st)(lim st := doc), lim := Suc (lim st)\<rparr>)"

definition sub_path :: "string \<Rightarrow> string \<Rightarrow> string" where
  "sub_path dir name = (if dir = [] then name else dir @ ''/'' @ name)"

definition visit_file ::
  "(string \<Rightarrow> string \<Rightarrow> string) \<Rightarrow> string \<Rightarrow> string \<Rightarrow> string option
     \<Rightarrow> nat list \<times> KnowledgeService \<Rightarrow> nat list \<times> KnowledgeService" where
  "visit_file extractTitle name relativePath readResult acc =
     (let documents = fst acc; st = snd acc; ext = toLowerCase (path_extname name)
      in if ext = ''.md'' \<or> ext = ''.yaml'' \<or> ext = ''.yml''
         then (case documentCache st relativePath of
                 Some a \<Rightarrow> (documents @ [a], st)
               | None \<Rightarrow>
                   (case readResult of
                      None \<Rightarrow> (documents, st)
                    | Some text \<Rightarrow>
                        if length (trim text) < 10 then (documents, st)
                        else (let (a, st1) =
                                    new_object
                                      \<lparr>path = relativePath,
                                       title = extractTitle text relativePath,
                                       content = text, snippet = None\<rparr> st
                              in (documents @ [a],
                                  st1\<lparr>documentCache :=
                                        (documentCache st1)(relativePath \<mapsto> a)\<rparr>))))
         else (documents, st))"

fun walkDirectory ::
  "(string \<Rightarrow> string \<Rightarrow> string) \<Rightarrow> string \<Rightarrow> fs_entry
     \<Rightarrow> nat list \<times> KnowledgeService \<Rightarrow> nat list \<times> KnowledgeService" where
  "walkDirectory extractTitle dir (Directory name entries) acc =
     (if startsWith name ''.'' then acc
      else fold (walkDirectory extractTitle (sub_path dir name)) entries acc)"
| "walkDirectory extractTitle dir (Unreadable name) acc = acc"
| "walkDirectory extractTitle dir (File name readResult) acc =
     visit_file extractTitle name (sub_path dir name) readResult acc"
| "walkDirectory extractTitle dir (Other name) acc = acc"

definition getAllDocuments ::
  "(string \<Rightarrow> string \<Rightarrow> string) \<Rightarrow> fs_entry list option \<Rightarrow> KnowledgeService
     \<Rightarrow> nat list \<times> KnowledgeService" where
  "getAllDocuments extractTitle root st =
     (case root of
        None \<Rightarrow> ([], st)
      | Some entries \<Rightarrow> fold (walkDirectory extractTitle []) entries ([], st))"

definition search ::
  "regex_engine \<Rightarrow> (string \<Rightarrow> string \<Rightarrow> string) \<Rightarrow> fs_entry list option \<Rightarrow> KnowledgeService
     \<Rightarrow> string \<Rightarrow> (js_error + KnowledgeDocument list) \<times> KnowledgeService" where
  "search engine extractTitle root st query =
     (let (documents, st1) = getAllDocuments extractTitle root st
      in (search_on engine (map (objects st1) documents) query, st1))"

definition searchWithCopilot ::
  "regex_engine \<Rightarrow> ranker option \<Rightarrow> (string \<Rightarrow> string \<Rightarrow> string) \<Rightarrow> fs_entry list option
     \<Rightarrow> KnowledgeService \<Rightarrow> string \<Rightarrow> nat \<Rightarrow> nat
     \<Rightarrow> ((js_error + KnowledgeDocument list) \<times> ranker_calls) \<times> KnowledgeService" where
  "searchWithCopilot engine copilotService extractTitle root st query maxCandidates maxResults =
     (case copilotService of
        None \<Rightarrow>
          (let (results, st1) = search engine extractTitle root st query
           in ((results, []), st1))
      | Some rank \<Rightarrow>
          (let (documents, st1) = getAllDocuments extractTitle root st
           in case enhanced_body engine rank (map (objects st1) documents) query
                     maxCandidates maxResults of
                (Inl e, calls) \<Rightarrow>
                  (let (results, st2) = search engine extractTitle root st1 query
                   in ((results, calls), st2))
              | (Inr results, calls) \<Rightarrow> ((Inr results, calls), st1)))"

definition clearCache :: "KnowledgeService \<Rightarrow> KnowledgeService" where
  "clearCache st = st\<lparr>documentCache := Map.empty\<rparr>"

definition cache_ok :: "KnowledgeService \<Rightarrow> bool" where
  "cache_ok st \<longleftrightarrow>
     (\<forall>p a. documentCache st p = Some a \<longrightarrow> a < lim st \<and> snippet (objects st a) = None)"

definition keeps :: "KnowledgeService \<Rightarrow> KnowledgeService \<Rightarrow> bool" where
  "keeps st st' \<longleftrightarrow>
     lim st \<le> lim st'
     \<and> (\<forall>a<lim st. objects st' a = objects st a)
     \<and> (\<forall>p a. documentCache st p = Some a \<longrightarrow> documentCache st' p = Some a)"

definition store0 :: KnowledgeService where
  \<comment> \<open>a service just constructed: nothing cached, no object made\<close>
  "store0 =
     \<lparr>documentCache = Map.empty,
      objects = (\<lambda>a. \<lparr>path = [], title = [], content = [], snippet = None\<rparr>),
      lim = 0\<rparr>"

definition moss_dir :: "fs_entry list option" where
  \<comment> \<open>a data directory, for the examples\<close>
  "moss_dir =
     Some [File ''moss.md'' (Some moss_care), File ''.gitkeep'' (Some []),
           Directory ''.git'' [File ''notes.md'' (Some moss_care)],
           Directory ''guides'' [File ''light.yaml'' (Some ''name: Light for moss'')]]"

subsection \<open>The candidates in the specification's words\<close>

definition scored :: "regex_engine \<Rightarrow> string list \<Rightarrow> KnowledgeDocument \<Rightarrow> nat" where
  \<comment> \<open>the score of a document that can be scored\<close>
  "scored engine ts doc = (case inline_score engine doc ts of Inr sc \<Rightarrow> sc | Inl e \<Rightarrow> 0)"

definition spec_candidates ::
  "regex_engine \<Rightarrow> KnowledgeDocument list \<Rightarrow> string \<Rightarrow> nat \<Rightarrow> Candidate list" where
  \<comment> \<open>the documents of positive score, or the first \<open>maxCandidates\<close> documents when no
      document has one; each with its snippet and its score; sorted by descending score,
      documents of equal score in the order of loading; the first \<open>maxCandidates\<close> of them\<close>
  "spec_candidates engine documents query maxCandidates =
     (let ts = split_ws (toLowerCase query);
          positive = filter (\<lambda>doc. 0 < scored engine ts doc) documents;
          chosen = (if positive = [] then take maxCandidates documents else positive)
      in take maxCandidates
           (sort_desc score
              (map (\<lambda>doc. \<lparr>path = path doc, title = title doc, content = content doc,
                           snippet = Some (extractSnippet (content doc) ts),
                           score = scored engine ts doc\<rparr>)
                 chosen)))"

subsection \<open>Examples\<close>

definition long_note :: string where
  \<comment> \<open>a document whose second line has more than 300 characters\<close>
  "long_note = ''# Notes'' @ [CHR 0x0A] @ ''Moss needs water. '' @ replicate 400 (CHR ''x'')"

definition two_docs :: "(string \<times> string) list" where
  "two_docs = [(''Moss'', ''moss moss''), (''Light'', ''moss and moss and moss'')]"

definition sdk_ok :: CopilotSdk where
  \<comment> \<open>an SDK of which every operation succeeds and that answers \<open>1, 0\<close>\<close>
  "sdk_ok = \<lparr>newCopilotClient = None, start = None, createSession = None,
             sendAndWait = (\<lambda>p. Inr (Some ''1, 0''))\<rparr>"

definition svc_new :: CopilotService where
  \<comment> \<open>a service just constructed\<close>
  "svc_new = \<lparr>client = False, isInitialized = False\<rparr>"

section \<open>Properties of parseRanking\<close>

lemma split_on_not_Nil: "split_on sep s \<noteq> []"
  by (induction s) (auto split: list.split)

lemma split_on_unfold:
  "split_on sep s =
     takeWhile (\<lambda>c. \<not> sep c) s #
       (case dropWhile (\<lambda>c. \<not> sep c) s of [] \<Rightarrow> [] | _ # r \<Rightarrow> split_on sep r)"
proof (induction s)
  case Nil
  show ?case by simp
next
  case (Cons c cs)
  show ?case
  proof (cases "sep c")
    case True
    then show ?thesis by simp
  next
    case False
    have "split_on sep (c # cs) = (c # hd (split_on sep cs)) # tl (split_on sep cs)"
      using False split_on_not_Nil [of sep cs] by (simp split: list.split)
    also have "hd (split_on sep cs) = takeWhile (\<lambda>c. \<not> sep c) cs"
      by (subst Cons.IH) simp
    also have "tl (split_on sep cs) =
        (case dropWhile (\<lambda>c. \<not> sep c) cs of [] \<Rightarrow> [] | _ # r \<Rightarrow> split_on sep r)"
      by (subst Cons.IH) simp
    finally show ?thesis using False by simp
  qed
qed

lemma match_digits_runs: "match_digits s = digit_runs s"
proof (induction s rule: match_digits.induct)
  case 1
  show ?case by (simp add: digit_runs_def)
next
  case (2 c cs)
  show ?case
  proof (cases "isDigit c")
    case False
    with 2 show ?thesis by (simp add: digit_runs_def)
  next
    case True
    note IH = 2(1) [OF True]
    have run: "digit_runs (c # cs) =
        (c # takeWhile isDigit cs) #
          (case dropWhile isDigit cs of [] \<Rightarrow> [] | _ # r \<Rightarrow> digit_runs r)"
    proof (cases "dropWhile isDigit cs")
      case Nil
      show ?thesis
        unfolding digit_runs_def
        by (subst split_on_unfold) (simp add: True Nil del: dropWhile_eq_Nil_conv)
    next
      case (Cons x r)
      show ?thesis
        unfolding digit_runs_def
        by (subst split_on_unfold) (simp add: True Cons)
    qed
    have rest: "digit_runs (dropWhile isDigit cs) =
        (case dropWhile isDigit cs of [] \<Rightarrow> [] | _ # r \<Rightarrow> digit_runs r)"
    proof (cases "dropWhile isDigit cs")
      case Nil
      show ?thesis by (simp add: Nil digit_runs_def del: dropWhile_eq_Nil_conv)
    next
      case (Cons x r)
      then have "\<not> isDigit x"
        by (metis hd_dropWhile list.distinct(1) list.sel(1))
      then show ?thesis using Cons by (simp add: digit_runs_def)
    qed
    show ?thesis using True IH run rest by simp
  qed
qed

lemma parseInt_foldl:
  "foldl (\<lambda>a c. 10 * a + digitValue c) a ds = a * 10 ^ length ds + decimal_value ds"
  by (induction ds arbitrary: a) (simp_all add: algebra_simps)

lemma parseInt_decimal_value: "parseInt ds = decimal_value ds"
  by (simp add: parseInt_def parseInt_foldl)

lemma removeAll_filter_conj: "removeAll x (filter P xs) = filter (\<lambda>y. y \<noteq> x \<and> P y) xs"
  by (induction xs) auto

lemma foldl_Set_add:
  "foldl Set_add acc xs = acc @ dedup_first (filter (\<lambda>x. x \<notin> set acc) xs)"
proof (induction xs arbitrary: acc)
  case Nil
  show ?case by simp
next
  case (Cons x xs)
  show ?case
  proof (cases "x \<in> set acc")
    case True
    then show ?thesis using Cons [of acc] by (simp add: Set_add_def)
  next
    case False
    have "filter (\<lambda>y. y \<notin> set (acc @ [x])) xs = removeAll x (filter (\<lambda>y. y \<notin> set acc) xs)"
      by (simp add: removeAll_filter_conj)
    then show ?thesis using False Cons [of "acc @ [x]"] by (simp add: Set_add_def)
  qed
qed

lemma new_Set_dedup_first: "new_Set xs = dedup_first xs"
  by (simp add: new_Set_def foldl_Set_add)

lemma set_dedup_first: "set (dedup_first xs) = set xs"
  by (induction xs rule: dedup_first.induct) auto

lemma distinct_dedup_first: "distinct (dedup_first xs)"
  by (induction xs rule: dedup_first.induct) (auto simp: set_dedup_first)

lemma parseRanking_numbers:
  "(case String_match_digits reply of
      None \<Rightarrow> []
    | Some ms \<Rightarrow> filter (\<lambda>num. 0 \<le> num \<and> num < N) (map parseInt ms))
   = filter (\<lambda>k. k < N) (map decimal_value (digit_runs reply))"
proof -
  have "parseInt = decimal_value"
    by (rule ext) (rule parseInt_decimal_value)
  then show ?thesis
    by (simp add: String_match_digits_def match_digits_runs [symmetric] split: list.split)
qed

lemma parseRanking_eq_spec: "parseRanking reply N = spec_ranking reply N"
  by (simp add: parseRanking_def spec_ranking_def parseRanking_numbers new_Set_dedup_first)

lemma spec_ranking_distinct: "distinct (spec_ranking reply N)"
  by (auto simp: spec_ranking_def Let_def distinct_dedup_first)

lemma spec_ranking_set: "set (spec_ranking reply N) = {0..<N}"
  by (auto simp: spec_ranking_def Let_def set_dedup_first)

lemma spec_ranking_length: "length (spec_ranking reply N) = N"
proof -
  have "card (set (spec_ranking reply N)) = length (spec_ranking reply N)"
    using spec_ranking_distinct by (rule distinct_card)
  then show ?thesis by (simp add: spec_ranking_set)
qed

text \<open>
  Claim C1. For every document count \<open>N\<close> and every reply string, \<open>parseRanking\<close> returns
  the integers of the maximal digit runs of the reply that lie in \<open>[0, N)\<close>, each once at
  its first occurrence, followed by the missing indices of \<open>0..N-1\<close> in ascending
  order; the result has exactly \<open>N\<close> entries, no entry twice, and covers \<open>0..N-1\<close>.
\<close>

theorem parseRanking_permutation:
  "parseRanking reply N = spec_ranking reply N
   \<and> length (parseRanking reply N) = N
   \<and> distinct (parseRanking reply N)
   \<and> set (parseRanking reply N) = {0..<N}"
  by (simp add: parseRanking_eq_spec spec_ranking_length spec_ranking_distinct
      spec_ranking_set)

theorem parseRanking_permutation_witness:
  "parseRanking ''Sure: 2, 0 and 2 again; 17'' 4 = [2, 0, 1, 3]
   \<and> length (parseRanking ''Sure: 2, 0 and 2 again; 17'' 4) = 4"
  using parseRanking_permutation [of "''Sure: 2, 0 and 2 again; 17''" 4]
  by (simp add: spec_ranking_def digit_runs_def isDigit_def digitValue_def upt_rec)

section \<open>Properties of rankDocumentsByRelevance\<close>

lemma parseRanking_length: "length (parseRanking reply N) = N"
  by (simp add: parseRanking_eq_spec spec_ranking_length)

lemma rank_body_cases:
  "(\<exists>e. fst (rank_body sdk svc query documents) = Inl e)
   \<or> fst (rank_body sdk svc query documents) = Inr (identity_ranking (length documents))
   \<or> (\<exists>reply. sendAndWait sdk (ranking_prompt query documents) = Inr (Some reply)
         \<and> reply \<noteq> []
         \<and> fst (rank_body sdk svc query documents)
             = Inr (parseRanking reply (length documents)))"
  by (auto simp: rank_body_def Let_def split: prod.split sum.split option.split)

lemma rank_fst:
  "fst (rankDocumentsByRelevance sdk svc query documents) =
     (case fst (rank_body sdk svc query documents) of
        Inl e \<Rightarrow> Inr (identity_ranking (length documents))
      | Inr ranking \<Rightarrow> Inr ranking)"
  by (simp add: rankDocumentsByRelevance_def split: prod.split sum.split)

lemma rank_never_raises:
  "\<exists>ranking. fst (rankDocumentsByRelevance sdk svc query documents) = Inr ranking"
  by (simp add: rank_fst split: sum.split)

lemma rank_exception_identity:
  "fst (rank_body sdk svc query documents) = Inl e
   \<Longrightarrow> fst (rankDocumentsByRelevance sdk svc query documents)
         = Inr (identity_ranking (length documents))"
  by (simp add: rank_fst)

lemma rank_no_content_identity:
  assumes "no_content (sendAndWait sdk (ranking_prompt query documents))"
  shows "fst (rankDocumentsByRelevance sdk svc query documents)
           = Inr (identity_ranking (length documents))"
  using assms rank_body_cases [of sdk svc query documents]
  by (auto simp: rank_fst no_content_def)

lemma rank_empty_identity:
  "fst (rankDocumentsByRelevance sdk svc query []) = Inr (identity_ranking 0)"
proof -
  have "parseRanking reply 0 = []" for reply
    using parseRanking_length [of reply 0] by simp
  then show ?thesis
    using rank_body_cases [of sdk svc query "[]"]
    by (auto simp: rank_fst identity_ranking_def)
qed

lemma rank_body_sdk_failure:
  assumes "(\<not> isInitialized svc \<and> newCopilotClient sdk \<noteq> None)
        \<or> (\<not> isInitialized svc \<and> start sdk \<noteq> None)
        \<or> (isInitialized svc \<and> \<not> client svc)
        \<or> createSession sdk \<noteq> None
        \<or> (\<exists>e. sendAndWait sdk (ranking_prompt query documents) = Inl e)"
  shows "\<exists>e. fst (rank_body sdk svc query documents) = Inl e"
  using assms
  by (auto simp: rank_body_def initialize_def Let_def split: option.split sum.split)

text \<open>
  Claim C2. \<open>rankDocumentsByRelevance\<close> never raises to its caller; and it returns the
  identity ranking \<open>[0, 1, ..., N-1]\<close>, the empty sequence for \<open>N = 0\<close>, whenever an
  exception occurs inside its \<open>try\<close> block: the client cannot be created or cannot be
  started when the service is not initialized, the service is marked initialized without
  a client, the session cannot be created, the request throws (a transport failure, a
  timeout); and also when the reply has no content, and when there are no documents.
\<close>

theorem rankDocumentsByRelevance_fallback:
  "(\<exists>ranking. fst (rankDocumentsByRelevance sdk svc query documents) = Inr ranking)
   \<and> (((\<exists>e. fst (rank_body sdk svc query documents) = Inl e)
        \<or> (\<not> isInitialized svc \<and> newCopilotClient sdk \<noteq> None)
        \<or> (\<not> isInitialized svc \<and> start sdk \<noteq> None)
        \<or> (isInitialized svc \<and> \<not> client svc)
        \<or> createSession sdk \<noteq> None
        \<or> (\<exists>e. sendAndWait sdk (ranking_prompt query documents) = Inl e)
        \<or> no_content (sendAndWait sdk (ranking_prompt query documents))
        \<or> documents = [])
       \<longrightarrow> fst (rankDocumentsByRelevance sdk svc query documents)
             = Inr [0..<length documents])"
proof -
  have "fst (rankDocumentsByRelevance sdk svc query documents) = Inr [0..<length documents]"
    if "(\<not> isInitialized svc \<and> newCopilotClient sdk \<noteq> None)
        \<or> (\<not> isInitialized svc \<and> start sdk \<noteq> None)
        \<or> (isInitialized svc \<and> \<not> client svc)
        \<or> createSession sdk \<noteq> None
        \<or> (\<exists>e. sendAndWait sdk (ranking_prompt query documents) = Inl e)"
    using rank_body_sdk_failure [OF that] rank_exception_identity
    by (auto simp: identity_ranking_def)
  then show ?thesis
    using rank_never_raises [of sdk svc query documents]
      rank_no_content_identity [of sdk query documents svc]
      rank_empty_identity [of sdk svc query]
    by (auto simp: identity_ranking_def dest: rank_exception_identity)
qed

theorem rankDocumentsByRelevance_fallback_witness:
  "fst (rankDocumentsByRelevance sdk_ok svc_new ''water'' two_docs) = Inr [1, 0]
   \<and> fst (rankDocumentsByRelevance (sdk_ok\<lparr>newCopilotClient := Some (Error ''no binary'')\<rparr>)
            svc_new ''water'' two_docs) = Inr [0, 1]
   \<and> fst (rankDocumentsByRelevance (sdk_ok\<lparr>start := Some (Error ''spawn copilot ENOENT'')\<rparr>)
            svc_new ''water'' two_docs) = Inr [0, 1]
   \<and> fst (rankDocumentsByRelevance sdk_ok \<lparr>client = False, isInitialized = True\<rparr>
            ''water'' two_docs) = Inr [0, 1]
   \<and> fst (rankDocumentsByRelevance (sdk_ok\<lparr>createSession := Some (Error ''401'')\<rparr>)
            svc_new ''water'' two_docs) = Inr [0, 1]
   \<and> fst (rankDocumentsByRelevance
            (sdk_ok\<lparr>sendAndWait := (\<lambda>p. Inl (Error ''socket hang up''))\<rparr>)
            svc_new ''water'' two_docs) = Inr [0, 1]
   \<and> fst (rankDocumentsByRelevance (sdk_ok\<lparr>sendAndWait := (\<lambda>p. Inr None)\<rparr>)
            svc_new ''water'' two_docs) = Inr [0, 1]
   \<and> fst (rankDocumentsByRelevance (sdk_ok\<lparr>sendAndWait := (\<lambda>p. Inr (Some []))\<rparr>)
            svc_new ''water'' two_docs) = Inr [0, 1]
   \<and> fst (rankDocumentsByRelevance sdk_ok svc_new ''water'' []) = Inr []"
proof -
  have len: "[0..<length two_docs] = [0, 1]" by (simp add: two_docs_def upt_rec)
  have ok: "fst (rankDocumentsByRelevance sdk_ok svc_new ''water'' two_docs) = Inr [1, 0]"
    by code_simp
  have 1: "fst (rankDocumentsByRelevance (sdk_ok\<lparr>newCopilotClient := Some (Error ''no binary'')\<rparr>)
            svc_new ''water'' two_docs) = Inr [0, 1]"
    using rankDocumentsByRelevance_fallback [of "sdk_ok\<lparr>newCopilotClient := Some (Error ''no binary'')\<rparr>" svc_new
        "''water''" two_docs]
    by (simp add: len svc_new_def)
  have 2: "fst (rankDocumentsByRelevance (sdk_ok\<lparr>start := Some (Error ''spawn copilot ENOENT'')\<rparr>)
            svc_new ''water'' two_docs) = Inr [0, 1]"
    using rankDocumentsByRelevance_fallback [of "sdk_ok\<lparr>start := Some (Error ''spawn copilot ENOENT'')\<rparr>" svc_new
        "''water''" two_docs]
    by (simp add: len svc_new_def)
  have 3: "fst (rankDocumentsByRelevance sdk_ok \<lparr>client = False, isInitialized = True\<rparr>
            ''water'' two_docs) = Inr [0, 1]"
    using rankDocumentsByRelevance_fallback [of sdk_ok "\<lparr>client = False, isInitialized = True\<rparr>" "''water''" two_docs]
    by (simp add: len)
  have 4: "fst (rankDocumentsByRelevance (sdk_ok\<lparr>createSession := Some (Error ''401'')\<rparr>)
            svc_new ''water'' two_docs) = Inr [0, 1]"
    using rankDocumentsByRelevance_fallback [of "sdk_ok\<lparr>createSession := Some (Error ''401'')\<rparr>" svc_new
        "''water''" two_docs]
    by (simp add: len)
  have 5: "fst (rankDocumentsByRelevance
            (sdk_ok\<lparr>sendAndWait := (\<lambda>p. Inl (Error ''socket hang up''))\<rparr>)
            svc_new ''water'' two_docs) = Inr [0, 1]"
    using rankDocumentsByRelevance_fallback [of "sdk_ok\<lparr>sendAndWait := (\<lambda>p. Inl (Error ''socket hang up''))\<rparr>" svc_new
        "''water''" two_docs]
    by (simp add: len)
  have 6: "fst (rankDocumentsByRelevance (sdk_ok\<lparr>sendAndWait := (\<lambda>p. Inr None)\<rparr>)
            svc_new ''water'' two_docs) = Inr [0, 1]"
    using rankDocumentsByRelevance_fallback [of "sdk_ok\<lparr>sendAndWait := (\<lambda>p. Inr None)\<rparr>" svc_new "''water''" two_docs]
    by (simp add: len no_content_def)
  have 7: "fst (rankDocumentsByRelevance (sdk_ok\<lparr>sendAndWait := (\<lambda>p. Inr (Some []))\<rparr>)
            svc_new ''water'' two_docs) = Inr [0, 1]"
    using rankDocumentsByRelevance_fallback [of "sdk_ok\<lparr>sendAndWait := (\<lambda>p. Inr (Some []))\<rparr>" svc_new "''water''" two_docs]
    by (simp add: len no_content_def)
  have 8: "fst (rankDocumentsByRelevance sdk_ok svc_new ''water'' []) = Inr []"
    using rankDocumentsByRelevance_fallback [of sdk_ok svc_new "''water''" "[]"] by simp
  from ok 1 2 3 4 5 6 7 8 show ?thesis by blast
qed

section \<open>Properties of the lexical score\<close>

lemma plain_atoms: "plain_term t \<Longrightarrow> map atom_of t = map Literal t"
  by (induction t) (auto simp: plain_term_def atom_of_def isSyntaxCharacter_def)

lemma literal_all2: "list_all2 atom_matches (map Literal t) u \<longleftrightarrow> u = t"
proof -
  have "list_all2 atom_matches (map Literal t) u \<longleftrightarrow> list_all2 (\<lambda>x c. c = x) t u"
    by (simp add: list_all2_map1)
  also have "\<dots> \<longleftrightarrow> list_all2 (=) u t"
    by (auto simp: list_all2_conv_all_nth)
  finally show ?thesis by (simp add: list_all2_eq)
qed

lemma matches_at_plain:
  "plain_term t \<Longrightarrow> matches_at (map atom_of t) s \<longleftrightarrow> startsWith s t"
proof -
  assume "plain_term t"
  then have "matches_at (map atom_of t) s \<longleftrightarrow> length t \<le> length s \<and> take (length t) s = t"
    by (simp add: matches_at_def plain_atoms literal_all2)
  also have "\<dots> \<longleftrightarrow> take (length t) s = t"
  proof -
    have "length t \<le> length s" if "take (length t) s = t"
    proof -
      from that have "length (take (length t) s) = length t" by simp
      then show ?thesis by simp
    qed
    then show ?thesis by blast
  qed
  finally show ?thesis by (simp add: startsWith_def)
qed

lemma count_matches_plain:
  "plain_term t \<Longrightarrow> t \<noteq> [] \<Longrightarrow> count_matches (map atom_of t) s = occurrences_apart t s"
proof (induction t s rule: occurrences_apart.induct)
  case (1 t)
  then show ?case by simp
next
  case (2 t c cs)
  then show ?case by (simp add: matches_at_plain)
qed

lemma RegExp_plain:
  "plain_term t \<Longrightarrow> RegExp engine t = Inr (count_matches (map atom_of t))"
  by (cases t) (auto simp: RegExp_def plain_term_def isSyntaxCharacter_def list_all_iff)

lemma match_count_plain:
  "plain_term t \<Longrightarrow> t \<noteq> [] \<Longrightarrow> match_count engine s t = Inr (occurrences_apart t s)"
  by (simp add: match_count_def RegExp_plain count_matches_plain)

lemma occurrences_apart_absent:
  "\<not> String_includes s t \<Longrightarrow> occurrences_apart t s = 0"
  by (induction t s rule: occurrences_apart.induct) auto


lemma scoreDocument_loop_plain:
  "list_all plain_term (filter (\<lambda>t. 3 \<le> length t) ts)
   \<Longrightarrow> scoreDocument_loop engine tlow clow ts sc = Inr (sc + term_sum occurrences_apart tlow clow ts)"
proof (induction ts arbitrary: sc)
  case Nil
  show ?case by (simp add: term_sum_def)
next
  case (Cons t ts)
  show ?case
  proof (cases "length t < 3")
    case True
    with Cons show ?thesis by (simp add: term_sum_def)
  next
    case False
    then have t: "plain_term t" "t \<noteq> []" using Cons.prems by auto
    have rest: "list_all plain_term (filter (\<lambda>t. 3 \<le> length t) ts)"
      using Cons.prems False by simp
    show ?thesis
      using False by (simp add: match_count_plain [OF t] Cons.IH [OF rest] term_sum_def)
  qed
qed

lemma inline_score_loop_plain:
  "list_all plain_term (filter (\<lambda>t. 3 \<le> length t) ts)
   \<Longrightarrow> inline_score_loop engine tlow clow ts sc = Inr (sc + term_sum occurrences_apart tlow clow ts)"
proof (induction ts arbitrary: sc)
  case Nil
  show ?case by (simp add: term_sum_def)
next
  case (Cons t ts)
  show ?case
  proof (cases "length t < 3")
    case True
    with Cons show ?thesis by (simp add: term_sum_def)
  next
    case False
    then have t: "plain_term t" "t \<noteq> []" using Cons.prems by auto
    have rest: "list_all plain_term (filter (\<lambda>t. 3 \<le> length t) ts)"
      using Cons.prems False by simp
    show ?thesis
      using False
      by (simp add: match_count_plain [OF t] Cons.IH [OF rest] term_sum_def
          occurrences_apart_absent)
  qed
qed


lemmas eval_strings =
  toLowerCase_def toLowerCase_char_def isSpace_def startsWith_def isSyntaxCharacter_def
  atom_of_def matches_at_def isLineTerminator_def

text \<open>
  Claim C3, as stated: the lexical score is the sum, over the terms of the query of length
  3 and more, of 10 if the lower-cased title contains the term, plus the number of
  occurrences of the term in the lower-cased content, at most 5. The code counts the
  matches of a global regular expression, which never overlap: in the content \<open>aaaa\<close>
  the term \<open>aaa\<close> occurs at two places and is matched once.
\<close>

theorem lexical_score_counterexample:
  "scoreDocument (\<lambda>t. Inl SyntaxError)
     \<lparr>path = ''a.md'', title = ''Notes'', content = ''aaaa'', snippet = None\<rparr>
     (split_ws (toLowerCase ''aaa'')) = Inr 1
   \<and> lexical_score occurrences
        \<lparr>path = ''a.md'', title = ''Notes'', content = ''aaaa'', snippet = None\<rparr> ''aaa'' = 2"
  by (simp add: scoreDocument_def match_count_def RegExp_def lexical_score_def term_sum_def
      eval_strings)

text \<open>
  Claim C3, amended: for a query whose terms of length 3 and more contain no character
  with a meaning of its own in a regular expression, the score that \<open>scoreDocument\<close>
  computes, and the one the loops of \<open>search\<close> and \<open>searchWithCopilot\<close> compute, is the
  sum over those terms of 10 if the lower-cased title contains the term, plus the number
  of occurrences of the term in the lower-cased content counted from left to right
  without overlap, at most 5.
\<close>

theorem lexical_score_plain_terms:
  assumes "list_all plain_term (filter (\<lambda>t. 3 \<le> length t) (split_ws (toLowerCase query)))"
  shows "scoreDocument engine doc (split_ws (toLowerCase query))
           = Inr (lexical_score occurrences_apart doc query)
         \<and> inline_score engine doc (split_ws (toLowerCase query))
           = Inr (lexical_score occurrences_apart doc query)"
  using assms
  by (simp add: scoreDocument_def inline_score_def lexical_score_def
      scoreDocument_loop_plain inline_score_loop_plain)

theorem lexical_score_plain_terms_witness:
  "list_all plain_term
     (filter (\<lambda>t. 3 \<le> length t) (split_ws (toLowerCase ''how much water does moss need'')))
   \<and> scoreDocument (\<lambda>t. Inl SyntaxError)
        \<lparr>path = ''watering.md'', title = ''Watering Schedule'',
         content = ''water water water water water water water water'', snippet = None\<rparr>
        (split_ws (toLowerCase ''how much water does moss need'')) = Inr 15"
proof -
  have plain: "list_all plain_term
     (filter (\<lambda>t. 3 \<le> length t) (split_ws (toLowerCase ''how much water does moss need'')))"
    by code_simp
  have sc15: "lexical_score occurrences_apart
        \<lparr>path = ''watering.md'', title = ''Watering Schedule'',
         content = ''water water water water water water water water'', snippet = None\<rparr>
        ''how much water does moss need'' = 15"
    by code_simp
  show ?thesis
    using lexical_score_plain_terms [OF plain, of "\<lambda>t. Inl SyntaxError"
        "\<lparr>path = ''watering.md'', title = ''Watering Schedule'',
         content = ''water water water water water water water water'', snippet = None\<rparr>"]
    unfolding sc15 using plain by blast
qed

section \<open>Properties of search\<close>

lemma slice_0: "slice 0 n xs = take n xs"
  by (simp add: slice_def)

text \<open>
  For a query whose terms of length 3 and more are plain, \<open>search\<close> returns the first three
  of the documents of positive score, each with its snippet, in descending order of the
  score; the sort is stable, so documents of equal score keep the order in which they were
  loaded.
\<close>

lemma insort_key_pairs:
  assumes "\<forall>q\<in>set ps. fst q = k (snd q)"
  shows "map snd (insort_key (\<lambda>q. f (fst q)) (k x, x) ps) = insort_key (\<lambda>y. f (k y)) x (map snd ps)"
  using assms by (induction ps) auto

lemma sort_key_pairs:
  "map snd (sort_key (\<lambda>q. f (fst q)) (zip (map k xs) xs)) = sort_key (\<lambda>y. f (k y)) xs
   \<and> (\<forall>q\<in>set (sort_key (\<lambda>q. f (fst q)) (zip (map k xs) xs)). fst q = k (snd q))"
proof (induction xs)
  case Nil
  show ?case by simp
next
  case (Cons x xs)
  then show ?case
    by (simp add: sort_key_def insort_key_pairs set_insort_key)
qed

lemma sort_desc_pairs: "map snd (sort_desc fst (zip (map k xs) xs)) = sort_desc k xs"
  using sort_key_pairs [of "\<lambda>n. - int n" k xs] by (simp add: sort_desc_def)

lemma sort_desc_short: "length xs < 2 \<Longrightarrow> sort_desc k xs = xs"
  by (cases xs) (auto simp: sort_desc_def sort_key_def)

lemma search_loop_plain:
  assumes "list_all plain_term (filter (\<lambda>t. 3 \<le> length t) (split_ws (toLowerCase query)))"
  shows "search_loop engine (split_ws (toLowerCase query)) documents
           = Inr (map (\<lambda>doc. doc\<lparr>snippet := Some (extractSnippet (content doc)
                                        (split_ws (toLowerCase query)))\<rparr>)
                    (filter (\<lambda>doc. 0 < lexical_score occurrences_apart doc query) documents))"
proof (induction documents)
  case Nil
  show ?case by simp
next
  case (Cons doc docs)
  have "inline_score engine doc (split_ws (toLowerCase query))
          = Inr (lexical_score occurrences_apart doc query)"
    using assms
    by (simp add: inline_score_def lexical_score_def inline_score_loop_plain)
  with Cons show ?case by simp
qed

lemma score_all_plain:
  assumes "list_all plain_term (filter (\<lambda>t. 3 \<le> length t) (split_ws (toLowerCase query)))"
  shows "score_all engine (split_ws (toLowerCase query)) results
           = Inr (map (\<lambda>doc. lexical_score occurrences_apart doc query) results)"
proof (induction results)
  case Nil
  show ?case by simp
next
  case (Cons doc docs)
  have "scoreDocument engine doc (split_ws (toLowerCase query))
          = Inr (lexical_score occurrences_apart doc query)"
    using assms
    by (simp add: scoreDocument_def lexical_score_def scoreDocument_loop_plain)
  with Cons show ?case by simp
qed

lemma sort_results_plain:
  assumes "list_all plain_term (filter (\<lambda>t. 3 \<le> length t) (split_ws (toLowerCase query)))"
  shows "sort_results engine (split_ws (toLowerCase query)) results
           = Inr (sort_desc (\<lambda>doc. lexical_score occurrences_apart doc query) results)"
  by (simp add: sort_results_def score_all_plain [OF assms] sort_desc_pairs sort_desc_short)

lemma search_on_plain:
  assumes "list_all plain_term (filter (\<lambda>t. 3 \<le> length t) (split_ws (toLowerCase query)))"
  shows "search_on engine documents query
           = Inr (take 3
                   (sort_desc (\<lambda>doc. lexical_score occurrences_apart doc query)
                      (map (\<lambda>doc. doc\<lparr>snippet := Some (extractSnippet (content doc)
                                            (split_ws (toLowerCase query)))\<rparr>)
                         (filter (\<lambda>doc. 0 < lexical_score occurrences_apart doc query)
                            documents))))"
  by (simp add: search_on_def Let_def search_loop_plain [OF assms] sort_results_plain [OF assms]
      slice_0)

text \<open>
  A term with a dot is a pattern in which the dot stands for any character. The loop of
  \<open>search\<close> counts its matches only in a content that includes the term as it is
  written; \<open>scoreDocument\<close>, by which \<open>search\<close> sorts, counts them in every content. So
  the two scores of one document can differ.
\<close>

lemma score_paths_disagree:
  "scoreDocument engine
     \<lparr>path = ''a.md'', title = ''Notes'', content = ''wat'', snippet = None\<rparr> [''w.t'']
     = Inr 1
   \<and> inline_score engine
       \<lparr>path = ''a.md'', title = ''Notes'', content = ''wat'', snippet = None\<rparr> [''w.t'']
     = Inr 0"
  by (simp add: scoreDocument_def inline_score_def match_count_def RegExp_def eval_strings)

text \<open>
  Claim C4 says that \<open>search\<close> returns, for every query, the documents of positive lexical
  score. For the query \<open>???\<close> and a document whose content contains \<open>???\<close> the lexical
  score is 1, and \<open>search\<close> returns no document: the term goes to \<open>new RegExp\<close> as it
  is, the constructor throws, and the \<open>catch\<close> branch returns the empty array.
\<close>

theorem search_regex_term:
  "search_on engine
     [\<lparr>path = ''faq.md'', title = ''FAQ'', content = ''is moss safe for pets ???'',
       snippet = None\<rparr>]
     ''???'' = Inr []
   \<and> lexical_score occurrences
        \<lparr>path = ''faq.md'', title = ''FAQ'', content = ''is moss safe for pets ???'',
         snippet = None\<rparr>
        ''???'' = 1"
proof -
  have "lexical_score occurrences
        \<lparr>path = ''faq.md'', title = ''FAQ'', content = ''is moss safe for pets ???'',
         snippet = None\<rparr>
        ''???'' = 1"
    by code_simp
  then show ?thesis
    by (simp add: search_on_def inline_score_def match_count_def RegExp_def eval_strings)
qed

section \<open>Properties of extractSnippet\<close>

lemma slice_nth: "e \<le> length xs \<Longrightarrow> slice b e xs = map (\<lambda>j. xs ! j) [b..<e]"
  unfolding slice_def by (rule nth_equalityI) auto

lemma window_at_lines_around: "window_at lines i = lines_around 1 2 lines i"
proof -
  have "i + 2 + 1 = i + 3" by simp
  then show ?thesis
    by (simp add: window_at_def lines_around_def slice_nth numeral_3_eq_3)
qed

lemma scan_lines_skip:
  "\<forall>j\<in>set js. \<not> String_includes (toLowerCase (lines ! j)) t
   \<Longrightarrow> scan_lines lines t (js @ ks) = scan_lines lines t ks"
  by (induction js) auto

lemma scan_lines_none:
  "\<forall>j\<in>set js. \<not> String_includes (toLowerCase (lines ! j)) t
   \<Longrightarrow> scan_lines lines t js = None"
  using scan_lines_skip [of js lines t "[]"] by simp

lemma scan_lines_first:
  assumes "first_matching_line lines t = Some i"
    and "20 < length (window_at lines i)"
  shows "scan_lines lines t [0..<length lines] = Some (ellipsize (window_at lines i))"
proof -
  from assms(1) obtain k where k: "k < length [0..<length lines]" "[0..<length lines] ! k = i"
    "String_includes (toLowerCase (lines ! i)) t"
    "\<forall>j<k. \<not> String_includes (toLowerCase (lines ! ([0..<length lines] ! j))) t"
    unfolding first_matching_line_def find_Some_iff by blast
  then have i: "i < length lines" and ki: "k = i" by auto
  have before: "\<forall>j\<in>set [0..<i]. \<not> String_includes (toLowerCase (lines ! j)) t"
    using k(4) ki i by auto
  have "[0..<length lines] = [0..<i] @ [i..<length lines]"
    using i by (metis le0 less_imp_le_nat upt_add_eq_append le_add_diff_inverse)
  then have "[0..<length lines] = [0..<i] @ i # [Suc i..<length lines]"
    using i by (simp add: upt_conv_Cons)
  then have "scan_lines lines t [0..<length lines] = scan_lines lines t (i # [Suc i..<length lines])"
    using scan_lines_skip [OF before] by simp
  then show ?thesis using k(3) assms(2) by simp
qed

lemma scan_terms_skip:
  assumes "\<forall>u\<in>set us. \<not> (3 \<le> length u \<and> list_ex (\<lambda>l. String_includes (toLowerCase l) u) lines)"
  shows "scan_terms lines (us @ vs) = scan_terms lines vs"
  using assms
proof (induction us)
  case Nil
  show ?case by simp
next
  case (Cons u us)
  show ?case
  proof (cases "length u < 3")
    case True
    with Cons show ?thesis by simp
  next
    case False
    with Cons.prems have "\<not> list_ex (\<lambda>l. String_includes (toLowerCase l) u) lines" by simp
    then have "\<forall>j\<in>set [0..<length lines]. \<not> String_includes (toLowerCase (lines ! j)) u"
      by (auto simp: list_ex_iff)
    then have "scan_lines lines u [0..<length lines] = None" by (rule scan_lines_none)
    with False Cons show ?thesis by simp
  qed
qed


text \<open>
  Claim C8, as stated: the window runs from one line before the first matching line
  through three lines after it. In \<open>moss_care\<close> the term \<open>water\<close> first occurs in line 1;
  the lines 0 to 4 are the window of the claim, and the snippet is the lines 0 to 3.
\<close>

theorem extractSnippet_window_counterexample:
  "first_matching_term (split_lines moss_care) [''water''] = Some ''water''
   \<and> first_matching_line (split_lines moss_care) ''water'' = Some 1
   \<and> 20 < length (lines_around 1 3 (split_lines moss_care) 1)
   \<and> extractSnippet moss_care [''water'']
       \<noteq> ellipsize (lines_around 1 3 (split_lines moss_care) 1)"
  by code_simp

text \<open>
  Claim C8, amended: when some term of length 3 and more occurs in the lower-cased text
  of some line, then for the first such term in the order given, the window is the four
  lines from one line before the first matching line through two lines after it, clipped
  to the lines of the content, joined and trimmed; if the window is longer than 20
  characters, \<open>extractSnippet\<close> returns it when it has at most 300 characters, and its
  first 300 characters followed by three dots when it has more.
\<close>

theorem extractSnippet_first_match:
  assumes "first_matching_term (split_lines text) ts = Some t"
    and "first_matching_line (split_lines text) t = Some i"
    and "20 < length (lines_around 1 2 (split_lines text) i)"
  shows "extractSnippet text ts
           = (if 300 < length (lines_around 1 2 (split_lines text) i)
              then take 300 (lines_around 1 2 (split_lines text) i) @ ''...''
              else lines_around 1 2 (split_lines text) i)"
proof -
  let ?lines = "split_lines text"
  from assms(1) obtain k where k: "k < length ts" "ts ! k = t" "3 \<le> length t"
    "\<forall>j<k. \<not> (3 \<le> length (ts ! j) \<and> list_ex (\<lambda>l. String_includes (toLowerCase l) (ts ! j)) ?lines)"
    unfolding first_matching_term_def find_Some_iff by blast
  have ts: "ts = take k ts @ t # drop (Suc k) ts"
    using k(1,2) by (metis id_take_nth_drop)
  have skip: "\<forall>u\<in>set (take k ts). \<not> (3 \<le> length u \<and> list_ex (\<lambda>l. String_includes (toLowerCase l) u) ?lines)"
    using k(1,4) by (auto simp: in_set_conv_nth)
  have "scan_terms ?lines ts = scan_terms ?lines (t # drop (Suc k) ts)"
    using scan_terms_skip [OF skip, of "t # drop (Suc k) ts"] ts by simp
  also have "\<dots> = Some (ellipsize (window_at ?lines i))"
    using k(3) scan_lines_first [OF assms(2)] assms(3) by (simp add: window_at_lines_around)
  finally show ?thesis
    by (simp add: extractSnippet_def window_at_lines_around ellipsize_def)
qed

theorem extractSnippet_first_match_witness:
  "extractSnippet moss_care [''to'', ''water'']
     = ''# Moss care'' @ [CHR 0x0A] @ ''Moss needs water weekly.'' @ [CHR 0x0A]
       @ ''Keep it shaded.'' @ [CHR 0x0A] @ ''Avoid direct sun.''
   \<and> length (lines_around 1 2 (split_lines long_note) 1) = 426
   \<and> extractSnippet long_note [''water'']
     = ''# Notes'' @ [CHR 0x0A] @ ''Moss needs water. '' @ replicate 274 (CHR ''x'') @ ''...''"
proof -
  have 1: "first_matching_term (split_lines moss_care) [''to'', ''water''] = Some ''water''"
    by code_simp
  have 2: "first_matching_line (split_lines moss_care) ''water'' = Some 1"
    by code_simp
  have 3: "20 < length (lines_around 1 2 (split_lines moss_care) 1)"
    by code_simp
  have 4: "(if 300 < length (lines_around 1 2 (split_lines moss_care) 1)
              then take 300 (lines_around 1 2 (split_lines moss_care) 1) @ ''...''
              else lines_around 1 2 (split_lines moss_care) 1)
     = ''# Moss care'' @ [CHR 0x0A] @ ''Moss needs water weekly.'' @ [CHR 0x0A]
       @ ''Keep it shaded.'' @ [CHR 0x0A] @ ''Avoid direct sun.''"
    by code_simp
  have short: "extractSnippet moss_care [''to'', ''water'']
     = ''# Moss care'' @ [CHR 0x0A] @ ''Moss needs water weekly.'' @ [CHR 0x0A]
       @ ''Keep it shaded.'' @ [CHR 0x0A] @ ''Avoid direct sun.''"
    using extractSnippet_first_match [OF 1 2 3] unfolding 4 .
  have 5: "first_matching_term (split_lines long_note) [''water''] = Some ''water''"
    by code_simp
  have 6: "first_matching_line (split_lines long_note) ''water'' = Some 1"
    by code_simp
  have 7: "length (lines_around 1 2 (split_lines long_note) 1) = 426"
    by code_simp
  have 8: "20 < length (lines_around 1 2 (split_lines long_note) 1)"
    unfolding 7 by simp
  have 9: "(if 300 < length (lines_around 1 2 (split_lines long_note) 1)
              then take 300 (lines_around 1 2 (split_lines long_note) 1) @ ''...''
              else lines_around 1 2 (split_lines long_note) 1)
     = ''# Notes'' @ [CHR 0x0A] @ ''Moss needs water. '' @ replicate 274 (CHR ''x'') @ ''...''"
    by code_simp
  have long: "extractSnippet long_note [''water'']
     = ''# Notes'' @ [CHR 0x0A] @ ''Moss needs water. '' @ replicate 274 (CHR ''x'') @ ''...''"
    using extractSnippet_first_match [OF 5 6 8] unfolding 9 .
  from short 7 long show ?thesis by blast
qed

section \<open>Properties of searchWithCopilot\<close>

lemma search_on_never_raises: "\<exists>results. search_on engine documents query = Inr results"
  by (simp add: search_on_def Let_def split: sum.split)



lemma searchWithCopilot_fst:
  "fst (searchWithCopilot_on engine (Some rank) documents query maxCandidates maxResults) =
     (case fst (enhanced_body engine rank documents query maxCandidates maxResults) of
        Inl e \<Rightarrow> search_on engine documents query
      | Inr results \<Rightarrow> Inr results)"
  by (simp add: searchWithCopilot_on_def split: prod.split sum.split)


lemma candidate_loop_spec:
  "candidate_loop engine ts documents = Inr found
   \<Longrightarrow> found = map (\<lambda>doc. \<lparr>path = path doc, title = title doc, content = content doc,
                           snippet = Some (extractSnippet (content doc) ts),
                           score = scored engine ts doc\<rparr>)
                 (filter (\<lambda>doc. 0 < scored engine ts doc) documents)
       \<and> (\<forall>doc\<in>set documents. inline_score engine doc ts = Inr (scored engine ts doc))"
proof (induction documents arbitrary: found)
  case Nil
  then show ?case by simp
next
  case (Cons doc docs)
  from Cons.prems obtain sc rest where sc: "inline_score engine doc ts = Inr sc"
    and rest: "candidate_loop engine ts docs = Inr rest"
    and found: "found = (if sc > 0 then as_candidate doc ts sc # rest else rest)"
    by (auto split: sum.splits)
  have "scored engine ts doc = sc" using sc by (simp add: scored_def)
  with Cons.IH [OF rest] found sc show ?case by (auto simp: as_candidate_def)
qed

lemma topCandidates_spec:
  assumes "topCandidates engine documents query maxCandidates = Inr tops"
  shows "tops = spec_candidates engine documents query maxCandidates"
proof -
  let ?ts = "split_ws (toLowerCase query)"
  let ?cand = "\<lambda>doc. \<lparr>path = path doc, title = title doc, content = content doc,
                           snippet = Some (extractSnippet (content doc) ?ts),
                           score = scored engine ?ts doc\<rparr>"
  let ?positive = "filter (\<lambda>doc. 0 < scored engine ?ts doc) documents"
  from assms obtain found where found: "candidate_loop engine ?ts documents = Inr found"
    and tops: "tops = take maxCandidates (sort_desc score
        (if length found = 0
         then map (\<lambda>doc. as_candidate doc ?ts 0) (take maxCandidates documents)
         else found))"
    by (auto simp: topCandidates_def Let_def slice_0 split: sum.splits)
  from candidate_loop_spec [OF found]
  have f: "found = map ?cand ?positive" by simp
  show ?thesis
  proof (cases "?positive = []")
    case True
    then have zero: "\<forall>doc\<in>set documents. scored engine ?ts doc = 0"
      by (auto simp: filter_empty_conv)
    have "map (\<lambda>doc. as_candidate doc ?ts 0) (take maxCandidates documents)
            = map ?cand (take maxCandidates documents)"
      using zero by (auto simp: as_candidate_def dest: in_set_takeD)
    with True f tops show ?thesis by (simp add: spec_candidates_def Let_def)
  next
    case False
    with f tops show ?thesis by (simp add: spec_candidates_def Let_def)
  qed
qed





text \<open>
  Claim C5. \<open>searchWithCopilot\<close> never raises to its caller; and when an exception leaves
  its \<open>try\<close> block (thrown while the candidates are scored, or by the ranking service), it
  returns what \<open>search\<close> returns for the same query on the same documents.
\<close>

theorem searchWithCopilot_fallback:
  "(\<exists>results. fst (searchWithCopilot_on engine copilotService documents query maxCandidates
        maxResults) = Inr results)
   \<and> (\<forall>rank e. copilotService = Some rank
         \<and> fst (enhanced_body engine rank documents query maxCandidates maxResults) = Inl e
       \<longrightarrow> fst (searchWithCopilot_on engine copilotService documents query maxCandidates
              maxResults) = search_on engine documents query)"
proof (cases copilotService)
  case None
  then show ?thesis
    using search_on_never_raises [of engine documents query]
    by (simp add: searchWithCopilot_on_def)
next
  case (Some rank)
  then show ?thesis
    using search_on_never_raises [of engine documents query]
    by (auto simp: searchWithCopilot_fst split: sum.split)
qed


theorem searchWithCopilot_fallback_witness:
  "fst (enhanced_body (\<lambda>t. Inl SyntaxError) (\<lambda>q ds. Inl (Error ''socket hang up'')) library
          ''moss'' 10 1) = Inl (Error ''socket hang up'')
   \<and> fst (searchWithCopilot_on (\<lambda>t. Inl SyntaxError)
            (Some (\<lambda>q ds. Inl (Error ''socket hang up''))) library ''moss'' 10 1)
       = search_on (\<lambda>t. Inl SyntaxError) library ''moss''"
proof -
  have thrown: "fst (enhanced_body (\<lambda>t. Inl SyntaxError) (\<lambda>q ds. Inl (Error ''socket hang up''))
      library ''moss'' 10 1) = Inl (Error ''socket hang up'')"
    by code_simp
  show ?thesis
    using searchWithCopilot_fallback [of "\<lambda>t. Inl SyntaxError"
        "Some (\<lambda>q ds. Inl (Error ''socket hang up''))" library "''moss''" 10 1] thrown
    by blast
qed

lemma rank_permutation:
  assumes "fst (rankDocumentsByRelevance sdk svc query ds) = Inr ranking"
  shows "distinct ranking \<and> set ranking = {0..<length ds}"
proof -
  have "distinct (parseRanking reply (length ds)) \<and> set (parseRanking reply (length ds)) = {0..<length ds}" for reply
    by (simp add: parseRanking_eq_spec spec_ranking_distinct spec_ranking_set)
  moreover have "ranking = [0..<length ds] \<or> (\<exists>reply. ranking = parseRanking reply (length ds))"
    using assms rank_body_cases [of sdk svc query ds]
    by (auto simp: rank_fst identity_ranking_def)
  ultimately show ?thesis by auto
qed

lemma reorder_in_range:
  "\<forall>i\<in>set ranking. i < length tops \<Longrightarrow> reorder tops ranking = map (\<lambda>i. tops ! i) ranking"
  by (induction ranking) (simp_all add: reorder_def)



lemma candidate_loop_paths:
  "candidate_loop engine ts documents = Inr found
   \<Longrightarrow> distinct (map path documents)
   \<Longrightarrow> distinct (map path found) \<and> set (map path found) \<subseteq> set (map path documents)"
proof (induction documents arbitrary: found)
  case Nil
  then show ?case by simp
next
  case (Cons doc docs)
  from Cons.prems(1) obtain sc rest where rest: "candidate_loop engine ts docs = Inr rest"
    and found: "found = (if sc > 0 then as_candidate doc ts sc # rest else rest)"
    by (auto split: sum.splits)
  from Cons.IH [OF rest] Cons.prems(2)
  have "distinct (map path rest)" "set (map path rest) \<subseteq> set (map path docs)" by simp_all
  then show ?case using found Cons.prems(2) by (auto simp: as_candidate_def)
qed

lemma distinct_paths_sort_desc:
  "distinct (map path xs) \<Longrightarrow> distinct (map path (sort_desc key xs))"
  by (simp add: distinct_map sort_desc_def)

lemma topCandidates_distinct_paths:
  assumes "topCandidates engine documents query maxCandidates = Inr tops"
    and "distinct (map path documents)"
  shows "distinct (map path tops)"
proof -
  let ?ts = "split_ws (toLowerCase query)"
  from assms(1) obtain found where found: "candidate_loop engine ?ts documents = Inr found"
    and tops: "tops = take maxCandidates (sort_desc score
        (if length found = 0
         then map (\<lambda>doc. as_candidate doc ?ts 0) (take maxCandidates documents)
         else found))"
    by (auto simp: topCandidates_def Let_def slice_0 split: sum.splits)
  have "map path (map (\<lambda>doc. as_candidate doc ?ts 0) (take maxCandidates documents))
          = take maxCandidates (map path documents)"
    by (simp add: take_map as_candidate_def comp_def)
  then have first: "distinct (map path (map (\<lambda>doc. as_candidate doc ?ts 0) (take maxCandidates documents)))"
    using assms(2) by (simp del: map_map)
  have "distinct (map path (if length found = 0
         then map (\<lambda>doc. as_candidate doc ?ts 0) (take maxCandidates documents)
         else found))"
    using first candidate_loop_paths [OF found assms(2)] by (simp del: map_map)
  then have "distinct (map path (sort_desc score (if length found = 0
         then map (\<lambda>doc. as_candidate doc ?ts 0) (take maxCandidates documents)
         else found)))"
    by (rule distinct_paths_sort_desc)
  then show ?thesis unfolding tops by (simp add: take_map [symmetric] del: map_map)
qed

lemma distinct_map_nth:
  assumes "distinct xs" and "distinct idxs" and "\<forall>i\<in>set idxs. i < length xs"
  shows "distinct (map (\<lambda>i. xs ! i) idxs)"
  using assms by (auto simp: distinct_map inj_on_def nth_eq_iff_index_eq)


text \<open>
  Claim C10. When \<open>searchWithCopilot\<close> asks \<open>rankDocumentsByRelevance\<close> (there are more
  candidates than \<open>maxResults\<close>), it returns the candidates at the first \<open>maxResults\<close>
  indices of the ranking: each is a candidate of the truncated list with its path, title,
  content and snippet and without its score; no candidate is returned twice; \<open>maxResults\<close>
  documents are returned, so at most that many; and when the loaded documents have
  distinct paths, so have the documents returned. The candidates are the ones of the
  specification.
\<close>

theorem searchWithCopilot_ranked:
  assumes tops: "topCandidates engine documents query maxCandidates = Inr tops"
    and more: "maxResults < length tops"
  shows "\<exists>ranking idxs.
           fst (rankDocumentsByRelevance sdk svc query
                  (map (\<lambda>c. (title c, (case snippet c of None \<Rightarrow> [] | Some s \<Rightarrow> s))) tops))
             = Inr ranking
           \<and> idxs = take maxResults ranking
           \<and> fst (searchWithCopilot_on engine
                   (Some (\<lambda>q ds. fst (rankDocumentsByRelevance sdk svc q ds)))
                   documents query maxCandidates maxResults)
                = Inr (map (\<lambda>i. \<lparr>path = path (tops ! i), title = title (tops ! i),
                                   content = content (tops ! i),
                                   snippet = snippet (tops ! i)\<rparr>) idxs)
           \<and> distinct idxs
           \<and> (\<forall>i\<in>set idxs. i < length tops)
           \<and> length idxs = maxResults
           \<and> length idxs \<le> maxResults
           \<and> (distinct (map path documents) \<longrightarrow> distinct (map (\<lambda>i. path (tops ! i)) idxs))
           \<and> tops = spec_candidates engine documents query maxCandidates"
proof -
  let ?ds = "map (\<lambda>doc. (title doc, (case snippet doc of None \<Rightarrow> [] | Some s \<Rightarrow> s))) tops"
  obtain ranking where ranking: "fst (rankDocumentsByRelevance sdk svc query ?ds) = Inr ranking"
    using rank_never_raises by blast
  from rank_permutation [OF ranking]
  have perm: "distinct ranking" "set ranking = {0..<length tops}" by simp_all
  have len: "length ranking = length tops"
    using perm distinct_card [of ranking] by simp
  let ?idxs = "take maxResults ranking"
  have in_range: "\<forall>i\<in>set ranking. i < length tops" using perm(2) by simp
  have "map strip_score (map (\<lambda>i. tops ! i) ?idxs)
      = map (\<lambda>i. \<lparr>path = path (tops ! i), title = title (tops ! i),
                   content = content (tops ! i), snippet = snippet (tops ! i)\<rparr>) ?idxs"
    by (simp add: strip_score_def)
  then have res: "fst (searchWithCopilot_on engine
                   (Some (\<lambda>q ds. fst (rankDocumentsByRelevance sdk svc q ds)))
                   documents query maxCandidates maxResults)
              = Inr (map (\<lambda>i. \<lparr>path = path (tops ! i), title = title (tops ! i),
                   content = content (tops ! i), snippet = snippet (tops ! i)\<rparr>) ?idxs)"
    using tops more ranking
    by (simp add: searchWithCopilot_fst enhanced_body_def Let_def slice_0
        reorder_in_range [OF in_range] take_map)
  have d: "distinct ?idxs" using perm(1) by simp
  have r: "\<forall>i\<in>set ?idxs. i < length tops"
    using in_range by (meson in_set_takeD)
  have l: "length ?idxs = maxResults" using len more by simp
  have p: "distinct (map (\<lambda>i. path (tops ! i)) ?idxs)"
    if paths: "distinct (map path documents)"
  proof -
    have "distinct (map (\<lambda>i. (map path tops) ! i) ?idxs)"
      using topCandidates_distinct_paths [OF tops paths] d r
      by (intro distinct_map_nth) simp_all
    moreover have "map (\<lambda>i. (map path tops) ! i) ?idxs = map (\<lambda>i. path (tops ! i)) ?idxs"
      using r by simp
    ultimately show ?thesis by simp
  qed
  show ?thesis
    using ranking res d r l p topCandidates_spec [OF tops]
    by (intro exI [of _ ranking] exI [of _ ?idxs]) simp
qed

theorem searchWithCopilot_ranked_witness:
  "topCandidates (\<lambda>t. Inl SyntaxError) library ''moss'' 10
     = Inr [\<lparr>path = ''moss.md'', title = ''Moss'', content = ''moss moss'',
             snippet = Some ''moss moss'', score = 12\<rparr>,
            \<lparr>path = ''light.md'', title = ''Light'', content = ''moss and moss and moss'',
             snippet = Some ''moss and moss and moss'', score = 3\<rparr>,
            \<lparr>path = ''ferns.md'', title = ''Ferns'', content = ''like moss'',
             snippet = Some ''like moss'', score = 1\<rparr>]
   \<and> fst (searchWithCopilot_on (\<lambda>t. Inl SyntaxError)
        (Some (\<lambda>q ds. fst (rankDocumentsByRelevance
           \<lparr>newCopilotClient = None, start = None, createSession = None,
            sendAndWait = (\<lambda>p. Inr (Some ''2, 0''))\<rparr>
           \<lparr>client = False, isInitialized = False\<rparr> q ds)))
        library ''moss'' 10 2)
       = Inr [\<lparr>path = ''ferns.md'', title = ''Ferns'', content = ''like moss'',
               snippet = Some ''like moss''\<rparr>,
              \<lparr>path = ''moss.md'', title = ''Moss'', content = ''moss moss'',
               snippet = Some ''moss moss''\<rparr>]"
proof -
  let ?sdk = "\<lparr>newCopilotClient = None, start = None, createSession = None,
            sendAndWait = (\<lambda>p. Inr (Some ''2, 0''))\<rparr>"
  let ?svc = "\<lparr>client = False, isInitialized = False\<rparr>"
  let ?tops = "[\<lparr>path = ''moss.md'', title = ''Moss'', content = ''moss moss'',
             snippet = Some ''moss moss'', score = 12\<rparr>,
            \<lparr>path = ''light.md'', title = ''Light'', content = ''moss and moss and moss'',
             snippet = Some ''moss and moss and moss'', score = 3\<rparr>,
            \<lparr>path = ''ferns.md'', title = ''Ferns'', content = ''like moss'',
             snippet = Some ''like moss'', score = 1\<rparr>]"
  have tops: "topCandidates (\<lambda>t. Inl SyntaxError) library ''moss'' 10 = Inr ?tops"
    by code_simp
  have more: "2 < length ?tops" by simp
  have ranking: "fst (rankDocumentsByRelevance ?sdk ?svc ''moss''
                  (map (\<lambda>c. (title c, (case snippet c of None \<Rightarrow> [] | Some s \<Rightarrow> s))) ?tops))
             = Inr [2, 0, 1]"
    by code_simp
  from searchWithCopilot_ranked [OF tops more, of ?sdk ?svc]
  obtain r idxs where r: "fst (rankDocumentsByRelevance ?sdk ?svc ''moss''
                  (map (\<lambda>c. (title c, (case snippet c of None \<Rightarrow> [] | Some s \<Rightarrow> s))) ?tops))
             = Inr r"
    and idxs: "idxs = take 2 r"
    and res: "fst (searchWithCopilot_on (\<lambda>t. Inl SyntaxError)
        (Some (\<lambda>q ds. fst (rankDocumentsByRelevance ?sdk ?svc q ds))) library ''moss'' 10 2)
       = Inr (map (\<lambda>i. \<lparr>path = path (?tops ! i), title = title (?tops ! i),
                                   content = content (?tops ! i),
                                   snippet = snippet (?tops ! i)\<rparr>) idxs)"
    by blast
  from r ranking have "r = [2, 0, 1]" by simp
  with idxs have "idxs = [2, 0]" by simp
  with res tops show ?thesis by simp
qed

section \<open>Properties of loadDocument\<close>

lemma split_on_hd: "hd (split_on sep s) = takeWhile (\<lambda>c. \<not> sep c) s"
  by (subst split_on_unfold) simp

lemma startsWith_takeWhile: "startsWith s (takeWhile P s)"
  by (simp add: startsWith_def) (metis append_eq_conv_conj takeWhile_dropWhile_id)

lemma String_includes_Nil: "String_includes s []"
  by (cases s) (simp_all add: startsWith_def)

lemma split_on_includes: "seg \<in> set (split_on sep s) \<Longrightarrow> String_includes s seg"
proof (induction s arbitrary: seg)
  case Nil
  then show ?case by simp
next
  case (Cons c cs)
  show ?case
  proof (cases "sep c")
    case True
    with Cons show ?thesis by (auto simp: String_includes_Nil startsWith_def)
  next
    case False
    obtain f fs where ffs: "split_on sep cs = f # fs"
      using split_on_not_Nil [of sep cs] by (cases "split_on sep cs") auto
    then have f: "f = takeWhile (\<lambda>c. \<not> sep c) cs" using split_on_hd [of sep cs] by simp
    from Cons.prems False ffs have "seg = c # f \<or> seg \<in> set fs" by simp
    then show ?thesis
    proof
      assume "seg = c # f"
      then have "startsWith (c # cs) seg"
        using startsWith_takeWhile [of cs "\<lambda>c. \<not> sep c"] f by (simp add: startsWith_def)
      then show ?thesis by simp
    next
      assume "seg \<in> set fs"
      then have "seg \<in> set (split_on sep cs)" using ffs by simp
      then show ?thesis using Cons.IH by simp
    qed
  qed
qed

lemma loadDocument_includes:
  "String_includes (path_normalize relativePath) ''..''
   \<Longrightarrow> loadDocument extractTitle readFile dataDirectory relativePath
         = (Inl (Error ''Invalid path''), [])"
  by (simp add: loadDocument_def)

lemma loadDocument_outside:
  "\<not> startsWith (path_join dataDirectory (path_normalize relativePath)) dataDirectory
   \<Longrightarrow> loadDocument extractTitle readFile dataDirectory relativePath
         = (Inl (Error ''Invalid path''), [])"
  by (simp add: loadDocument_def Let_def)


text \<open>
  Claim C7. When the normalized form of the relative path contains a parent-directory
  reference (a segment of two dots, or two dots anywhere), or the joined path does not
  start with the data directory, \<open>loadDocument\<close> throws the error \<open>Invalid path\<close> and has
  read no file, whatever the files are; the paths \<open>../secrets.txt\<close> and \<open>a/../../b\<close>
  are rejected in this way.
\<close>

theorem loadDocument_rejects:
  "((''..'' \<in> set (split_on (\<lambda>c. c = CHR ''/'') (path_normalize relativePath))
      \<or> String_includes (path_normalize relativePath) ''..''
      \<or> \<not> startsWith (path_join dataDirectory (path_normalize relativePath)) dataDirectory)
     \<longrightarrow> loadDocument extractTitle readFile dataDirectory relativePath
           = (Inl (Error ''Invalid path''), []))
   \<and> loadDocument extractTitle readFile dataDirectory ''../secrets.txt''
       = (Inl (Error ''Invalid path''), [])
   \<and> loadDocument extractTitle readFile dataDirectory ''a/../../b''
       = (Inl (Error ''Invalid path''), [])"
proof -
  have "String_includes (path_normalize ''../secrets.txt'') ''..''" by code_simp
  then have secrets: "loadDocument extractTitle readFile dataDirectory ''../secrets.txt''
       = (Inl (Error ''Invalid path''), [])"
    by (rule loadDocument_includes)
  have "String_includes (path_normalize ''a/../../b'') ''..''" by code_simp
  then have b: "loadDocument extractTitle readFile dataDirectory ''a/../../b''
       = (Inl (Error ''Invalid path''), [])"
    by (rule loadDocument_includes)
  show ?thesis
    using secrets b loadDocument_includes loadDocument_outside split_on_includes
    by blast
qed


theorem loadDocument_rejects_witness:
  "''..'' \<in> set (split_on (\<lambda>c. c = CHR ''/'') (path_normalize ''guides/../../../etc/passwd''))
   \<and> loadDocument (\<lambda>t p. p) (\<lambda>p. Some ''root:x:0:0'') ''/app/data''
        ''guides/../../../etc/passwd''
       = (Inl (Error ''Invalid path''), [])"
proof -
  have up: "''..'' \<in> set (split_on (\<lambda>c. c = CHR ''/'')
      (path_normalize ''guides/../../../etc/passwd''))"
    by code_simp
  show ?thesis
    using loadDocument_rejects [of "''guides/../../../etc/passwd''" "''/app/data''"
        "\<lambda>t p. p" "\<lambda>p. Some ''root:x:0:0''"] up
    by blast
qed

section \<open>Properties of the document cache\<close>

lemma keeps_refl: "keeps st st"
  by (simp add: keeps_def)

lemma keeps_trans: "keeps a b \<Longrightarrow> keeps b c \<Longrightarrow> keeps a c"
  by (auto simp: keeps_def)

lemma visit_file_keeps:
  assumes "cache_ok (snd acc)"
  shows "keeps (snd acc) (snd (visit_file extractTitle name rel r acc))
         \<and> cache_ok (snd (visit_file extractTitle name rel r acc))"
  using assms
  by (auto simp: visit_file_def Let_def new_object_def keeps_def cache_ok_def less_Suc_eq
      split: option.split)

lemma fold_keeps:
  assumes step: "\<And>e acc. e \<in> set es \<Longrightarrow> cache_ok (snd acc)
                  \<Longrightarrow> keeps (snd acc) (snd (f e acc)) \<and> cache_ok (snd (f e acc))"
    and "cache_ok (snd acc)"
  shows "keeps (snd acc) (snd (fold f es acc)) \<and> cache_ok (snd (fold f es acc))"
  using assms
proof (induction es arbitrary: acc)
  case Nil
  then show ?case by (simp add: keeps_refl)
next
  case (Cons e es)
  have 1: "keeps (snd acc) (snd (f e acc)) \<and> cache_ok (snd (f e acc))"
    using Cons.prems by simp
  have 2: "keeps (snd (f e acc)) (snd (fold f es (f e acc)))
           \<and> cache_ok (snd (fold f es (f e acc)))"
    using Cons.IH [of "f e acc"] Cons.prems(1) 1 by simp
  from 1 2 show ?case by (auto intro: keeps_trans)
qed

lemma walkDirectory_keeps:
  "cache_ok (snd acc)
   \<Longrightarrow> keeps (snd acc) (snd (walkDirectory extractTitle dir e acc))
       \<and> cache_ok (snd (walkDirectory extractTitle dir e acc))"
proof (induction extractTitle dir e acc rule: walkDirectory.induct)
  case (1 extractTitle dir name entries acc)
  show ?case
  proof (cases "startsWith name ''.''")
    case True
    with 1 show ?thesis by (simp add: keeps_refl)
  next
    case False
    have "keeps (snd acc) (snd (fold (walkDirectory extractTitle (sub_path dir name)) entries acc))
       \<and> cache_ok (snd (fold (walkDirectory extractTitle (sub_path dir name)) entries acc))"
      by (rule fold_keeps) (use 1 False in auto)
    with False show ?thesis by simp
  qed
next
  case (3 extractTitle dir name r acc)
  then show ?case using visit_file_keeps by simp
qed (simp_all add: keeps_refl)

lemma getAllDocuments_keeps:
  assumes "cache_ok st"
  shows "keeps st (snd (getAllDocuments extractTitle root st))
         \<and> cache_ok (snd (getAllDocuments extractTitle root st))"
proof (cases root)
  case None
  with assms show ?thesis by (simp add: getAllDocuments_def keeps_refl)
next
  case (Some entries)
  have "keeps (snd ([] :: nat list, st))
        (snd (fold (walkDirectory extractTitle []) entries ([], st)))
       \<and> cache_ok (snd (fold (walkDirectory extractTitle []) entries ([], st)))"
  proof (rule fold_keeps)
    show "cache_ok (snd ([] :: nat list, st))" using assms by simp
  next
    fix e :: fs_entry and acc :: "nat list \<times> KnowledgeService"
    assume "cache_ok (snd acc)"
    then show "keeps (snd acc) (snd (walkDirectory extractTitle [] e acc))
       \<and> cache_ok (snd (walkDirectory extractTitle [] e acc))"
      by (rule walkDirectory_keeps)
  qed
  with Some show ?thesis by (simp add: getAllDocuments_def)
qed

lemma search_state:
  "snd (search engine extractTitle root st query) = snd (getAllDocuments extractTitle root st)"
  by (simp add: search_def split: prod.split)

lemma search_keeps:
  assumes "cache_ok st"
  shows "keeps st (snd (search engine extractTitle root st query))
         \<and> cache_ok (snd (search engine extractTitle root st query))"
  using getAllDocuments_keeps [OF assms] by (simp add: search_state)

lemma searchWithCopilot_keeps:
  assumes "cache_ok st"
  shows "keeps st (snd (searchWithCopilot engine copilotService extractTitle root st query
                          maxCandidates maxResults))
         \<and> cache_ok (snd (searchWithCopilot engine copilotService extractTitle root st query
                          maxCandidates maxResults))"
proof (cases copilotService)
  case None
  then show ?thesis
    using search_keeps [OF assms, of engine extractTitle root query]
    by (simp add: searchWithCopilot_def case_prod_beta)
next
  case (Some rank)
  let ?st1 = "snd (getAllDocuments extractTitle root st)"
  have 1: "keeps st ?st1 \<and> cache_ok ?st1" using getAllDocuments_keeps [OF assms] .
  then have 2: "keeps ?st1 (snd (search engine extractTitle root ?st1 query))
      \<and> cache_ok (snd (search engine extractTitle root ?st1 query))"
    using search_keeps by blast
  have "snd (searchWithCopilot engine copilotService extractTitle root st query
                          maxCandidates maxResults) = ?st1
        \<or> snd (searchWithCopilot engine copilotService extractTitle root st query
                          maxCandidates maxResults)
            = snd (search engine extractTitle root ?st1 query)"
    using Some by (simp add: searchWithCopilot_def case_prod_beta split: prod.split sum.split)
  then show ?thesis using 1 2 by (auto intro: keeps_trans)
qed


text \<open>
  Claim C9. In a state whose cached objects carry no snippet, \<open>getAllDocuments\<close>, \<open>search\<close>
  and \<open>searchWithCopilot\<close> leave every cache entry in place and every field of its object
  as it was, and in the state they leave the cached objects still carry no snippet: the
  snippets go to the copies that are returned. \<open>clearCache\<close> empties the cache and changes
  no object.
\<close>

theorem cached_documents_immutable:
  assumes "cache_ok st"
    and "st' = snd (getAllDocuments extractTitle root st)
         \<or> st' = snd (search engine extractTitle root st query)
         \<or> st' = snd (searchWithCopilot engine copilotService extractTitle root st query
                        maxCandidates maxResults)"
  shows "(\<forall>p a. documentCache st p = Some a
            \<longrightarrow> documentCache st' p = Some a \<and> objects st' a = objects st a)
         \<and> cache_ok st'
         \<and> objects (clearCache st') = objects st'
         \<and> documentCache (clearCache st') = Map.empty"
proof -
  from assms(2) have "keeps st st' \<and> cache_ok st'"
    using getAllDocuments_keeps [OF assms(1)] search_keeps [OF assms(1)]
      searchWithCopilot_keeps [OF assms(1)]
    by blast
  then show ?thesis
    using assms(1) by (auto simp: keeps_def cache_ok_def clearCache_def)
qed

theorem cached_documents_immutable_witness:
  "cache_ok store0
   \<and> documentCache (snd (getAllDocuments (\<lambda>t p. p) moss_dir store0)) ''moss.md'' = Some 0
   \<and> documentCache
        (snd (search (\<lambda>t. Inl SyntaxError) (\<lambda>t p. p) moss_dir
                (snd (getAllDocuments (\<lambda>t p. p) moss_dir store0)) ''water''))
        ''moss.md'' = Some 0
   \<and> objects
        (snd (search (\<lambda>t. Inl SyntaxError) (\<lambda>t p. p) moss_dir
                (snd (getAllDocuments (\<lambda>t p. p) moss_dir store0)) ''water'')) 0
       = \<lparr>path = ''moss.md'', title = ''moss.md'', content = moss_care, snippet = None\<rparr>"
proof -
  let ?st1 = "snd (getAllDocuments (\<lambda>t p. p) moss_dir store0)"
  let ?st2 = "snd (search (\<lambda>t. Inl SyntaxError) (\<lambda>t p. p) moss_dir ?st1 ''water'')"
  have ok0: "cache_ok store0" by (simp add: cache_ok_def store0_def)
  have ok1: "cache_ok ?st1"
    using cached_documents_immutable [OF ok0, of ?st1 "\<lambda>t p. p" moss_dir] by blast
  have entry: "documentCache ?st1 ''moss.md'' = Some 0" by code_simp
  have obj: "objects ?st1 0
      = \<lparr>path = ''moss.md'', title = ''moss.md'', content = moss_care, snippet = None\<rparr>"
    by code_simp
  have "documentCache ?st2 ''moss.md'' = Some 0 \<and> objects ?st2 0 = objects ?st1 0"
    using cached_documents_immutable [OF ok1, of ?st2 "\<lambda>t p. p" moss_dir
        "\<lambda>t. Inl SyntaxError" "''water''"] entry
    by blast
  with ok0 entry obj show ?thesis by simp
qed

end
